theory Spec2Isabelle
  imports Complex_Main
begin

section \<open>JavaScript values\<close>

text \<open>
  The values handled by \<^verbatim>\<open>seo_utils.js\<close> are JSON documents: the baseline comes out of
  \<^verbatim>\<open>JSON.parse\<close>, the current value out of the page extractors. \<open>JUndefined\<close> is added
  because reading a missing property yields it. A JSON number is the real number it denotes
  (JSON has no NaN and no infinity, and \<^verbatim>\<open>-0 === 0\<close>), so \<^verbatim>\<open>===\<close> on numbers is equality.
  An object is the list of its own enumerable properties in \<^verbatim>\<open>Object.keys\<close> order; a
  property read takes the first entry of a key. A string is the list of its code units.
  Properties inherited from \<^verbatim>\<open>Object.prototype\<close> and \<^verbatim>\<open>Array.prototype\<close> are not part
  of the model: reading a key such as \<^verbatim>\<open>constructor\<close> that is not an own property yields
  \<^verbatim>\<open>undefined\<close> here, and \<^verbatim>\<open>in\<close> tests own properties.
\<close>

datatype jsval =
    JUndefined
  | JNull
  | JBool bool
  | JNum real
  | JStr string
  | JArr "jsval list"
  | JObj "(string \<times> jsval) list"

datatype errno = ENOENT | ENOTDIR | EACCES | EEXIST | EISDIR

datatype error =
    TypeError
  | SyntaxError
  | UnsupportedBaselineType string
  | IOError errno

text \<open>\<^verbatim>\<open>typeof v\<close>: \<^verbatim>\<open>null\<close>, arrays and objects all answer \<^verbatim>\<open>'object'\<close>.\<close>

fun typeof :: "jsval \<Rightarrow> string" where
  "typeof JUndefined = ''undefined''"
| "typeof JNull = ''object''"
| "typeof (JBool b) = ''boolean''"
| "typeof (JNum n) = ''number''"
| "typeof (JStr s) = ''string''"
| "typeof (JArr xs) = ''object''"
| "typeof (JObj kvs) = ''object''"

text \<open>Truthiness, as used by \<^verbatim>\<open>!v\<close>, \<^verbatim>\<open>a || b\<close> and \<^verbatim>\<open>c ? x : y\<close>.\<close>

fun truthy :: "jsval \<Rightarrow> bool" where
  "truthy JUndefined = False"
| "truthy JNull = False"
| "truthy (JBool b) = b"
| "truthy (JNum n) = (n \<noteq> 0)"
| "truthy (JStr s) = (s \<noteq> [])"
| "truthy (JArr xs) = True"
| "truthy (JObj kvs) = True"

text \<open>
  \<^verbatim>\<open>a === b\<close>. Primitives compare by value. Two arrays or objects compare by reference;
  the two operands of every comparison in this module come from different sources (a parsed
  baseline file and a fresh extraction), so they are never the same reference.
\<close>

fun strict_eq :: "jsval \<Rightarrow> jsval \<Rightarrow> bool" where
  "strict_eq JUndefined JUndefined = True"
| "strict_eq JNull JNull = True"
| "strict_eq (JBool a) (JBool b) = (a = b)"
| "strict_eq (JNum a) (JNum b) = (a = b)"
| "strict_eq (JStr a) (JStr b) = (a = b)"
| "strict_eq a b = False"

text \<open>\<^verbatim>\<open>typeof v === 'object' && v !== null\<close>\<close>

fun is_object :: "jsval \<Rightarrow> bool" where
  "is_object (JArr xs) = True"
| "is_object (JObj kvs) = True"
| "is_object v = False"

text \<open>\<^verbatim>\<open>Array.isArray(v)\<close>\<close>

fun isArray :: "jsval \<Rightarrow> bool" where
  "isArray (JArr xs) = True"
| "isArray v = False"

subsection \<open>Decimal rendering of an index\<close>

definition digit_char :: "nat \<Rightarrow> char" where
  "digit_char d = char_of (48 + d)"

function show_nat :: "nat \<Rightarrow> string" where
  "show_nat n = (if n < 10 then [digit_char n] else show_nat (n div 10) @ [digit_char (n mod 10)])"
  by pat_completeness auto
termination
  by (relation "measure id") auto

declare show_nat.simps [simp del]

subsection \<open>Property access\<close>

text \<open>\<^verbatim>\<open>Object.keys(v)\<close> for a value that is not \<^verbatim>\<open>null\<close> or \<^verbatim>\<open>undefined\<close>.\<close>

fun own_keys :: "jsval \<Rightarrow> string list" where
  "own_keys (JObj kvs) = map fst kvs"
| "own_keys (JArr xs) = map show_nat [0..<length xs]"
| "own_keys (JStr s) = map show_nat [0..<length s]"
| "own_keys v = []"

text \<open>\<^verbatim>\<open>Object.keys(v)\<close>: a TypeError on \<^verbatim>\<open>null\<close> and \<^verbatim>\<open>undefined\<close>.\<close>

fun Object_keys :: "jsval \<Rightarrow> error + string list" where
  "Object_keys JUndefined = Inl TypeError"
| "Object_keys JNull = Inl TypeError"
| "Object_keys v = Inr (own_keys v)"

text \<open>The position of a key among the index keys of a sequence of length \<open>n\<close>.\<close>

fun index_of :: "string \<Rightarrow> nat \<Rightarrow> nat option" where
  "index_of k 0 = None"
| "index_of k (Suc n) = (case index_of k n of Some i \<Rightarrow> Some i
                          | None \<Rightarrow> if show_nat n = k then Some n else None)"

text \<open>\<^verbatim>\<open>v[key]\<close>: a TypeError on \<^verbatim>\<open>null\<close> and \<^verbatim>\<open>undefined\<close>, \<^verbatim>\<open>undefined\<close> for a missing
  property.\<close>

fun get_member :: "jsval \<Rightarrow> string \<Rightarrow> error + jsval" where
  "get_member JUndefined k = Inl TypeError"
| "get_member JNull k = Inl TypeError"
| "get_member (JObj kvs) k = Inr (case map_of kvs k of Some v \<Rightarrow> v | None \<Rightarrow> JUndefined)"
| "get_member (JArr xs) k =
     Inr (if k = ''length'' then JNum (of_nat (length xs))
          else case index_of k (length xs) of Some i \<Rightarrow> xs ! i | None \<Rightarrow> JUndefined)"
| "get_member (JStr s) k =
     Inr (if k = ''length'' then JNum (of_nat (length s))
          else case index_of k (length s) of Some i \<Rightarrow> JStr [s ! i] | None \<Rightarrow> JUndefined)"
| "get_member v k = Inr JUndefined"

text \<open>\<^verbatim>\<open>key in v\<close>: a TypeError unless \<open>v\<close> is an array or an object.\<close>

fun has_in :: "string \<Rightarrow> jsval \<Rightarrow> error + bool" where
  "has_in k (JObj kvs) = Inr (k \<in> set (map fst kvs))"
| "has_in k (JArr xs) = Inr (k = ''length'' \<or> index_of k (length xs) \<noteq> None)"
| "has_in k v = Inl TypeError"

section \<open>The field-level differ\<close>

text \<open>
  A difference \<^verbatim>\<open>{ path, type, ... }\<close>, one constructor for each \<^verbatim>\<open>type\<close>: \<^verbatim>\<open>added\<close> and
  \<^verbatim>\<open>removed\<close> carry a value, \<^verbatim>\<open>type_changed\<close> and \<^verbatim>\<open>value_changed\<close> the baseline and
  the current value, \<^verbatim>\<open>array_length_changed\<close> the two lengths.
\<close>

datatype field_difference =
    Added string jsval
  | Removed string jsval
  | TypeChanged string jsval jsval
  | ValueChanged string jsval jsval
  | ArrayLengthChanged string nat nat

fun diff_path :: "field_difference \<Rightarrow> string" where
  "diff_path (Added p v) = p"
| "diff_path (Removed p v) = p"
| "diff_path (TypeChanged p b c) = p"
| "diff_path (ValueChanged p b c) = p"
| "diff_path (ArrayLengthChanged p m n) = p"

text \<open>
  A loop whose body pushes differences: the pushes of every iteration in order, or the first
  exception.
\<close>

fun for_each :: "('a \<Rightarrow> error + 'b list) \<Rightarrow> 'a list \<Rightarrow> error + 'b list" where
  "for_each f [] = Inr []"
| "for_each f (x # xs) =
     (case f x of Inl e \<Rightarrow> Inl e
      | Inr ds \<Rightarrow> (case for_each f xs of Inl e \<Rightarrow> Inl e | Inr ds' \<Rightarrow> Inr (ds @ ds')))"

lemma for_each_cong [fundef_cong]:
  "xs = ys \<Longrightarrow> (\<And>x. x \<in> set ys \<Longrightarrow> f x = g x) \<Longrightarrow> for_each f xs = for_each g ys"
  by (induction ys arbitrary: xs) (auto split: sum.splits)

text \<open>\<^verbatim>\<open>new Set([...a, ...b])\<close>: insertion order, first occurrence kept.\<close>

definition new_Set :: "string list \<Rightarrow> string list" where
  "new_Set ks = foldl (\<lambda>acc k. if k \<in> set acc then acc else acc @ [k]) [] ks"

text \<open>\<^verbatim>\<open>Object.keys(v || {})\<close>\<close>

definition keys_or_empty :: "jsval \<Rightarrow> string list" where
  "keys_or_empty v = (if truthy v then own_keys v else [])"

definition allKeys :: "jsval \<Rightarrow> jsval \<Rightarrow> string list" where
  "allKeys baseline current = new_Set (keys_or_empty baseline @ keys_or_empty current)"

text \<open>\<^verbatim>\<open>path ? `${path}.${key}` : key\<close>\<close>

definition currentPath :: "string \<Rightarrow> string \<Rightarrow> string" where
  "currentPath path key = (if path \<noteq> [] then path @ ''.'' @ key else key)"

text \<open>\<^verbatim>\<open>`${currentPath}[${i}]`\<close>\<close>

definition itemPath :: "string \<Rightarrow> nat \<Rightarrow> string" where
  "itemPath cp i = cp @ ''['' @ show_nat i @ '']''"

fun the_array :: "jsval \<Rightarrow> jsval list" where
  "the_array (JArr xs) = xs"
| "the_array v = []"

lemma size_map_of:
  "map_of kvs k = Some v \<Longrightarrow> size v < Suc (size_list (size_prod (\<lambda>_. 0) size) kvs)"
  by (induction kvs) (auto split: if_splits)

lemma size_nth:
  "i < length xs \<Longrightarrow> size (xs ! i) < Suc (size_list size xs)"
  by (induction xs arbitrary: i) (force simp: nth_Cons split: nat.splits)+

lemma index_of_less: "index_of k n = Some i \<Longrightarrow> i < n"
  by (induction n) (auto split: option.splits if_splits)

lemma size_get_member:
  "get_member b k = Inr v \<Longrightarrow> is_object v \<Longrightarrow> size v < size b"
  by (cases b)
     (auto split: option.splits if_splits dest: size_map_of index_of_less size_nth)

function findFieldDifferences :: "jsval \<Rightarrow> jsval \<Rightarrow> string \<Rightarrow> error + field_difference list"
  and diff_key :: "jsval \<Rightarrow> jsval \<Rightarrow> string \<Rightarrow> string \<Rightarrow> error + field_difference list"
  and diff_item :: "jsval \<Rightarrow> jsval \<Rightarrow> string \<Rightarrow> error + field_difference list"
where
  "findFieldDifferences baseline current path =
     for_each (\<lambda>key. diff_key baseline current path key) (allKeys baseline current)"
| "diff_key baseline current path key =
     (case has_in key baseline of Inl e \<Rightarrow> Inl e
      | Inr in_baseline \<Rightarrow>
        if \<not> in_baseline then
          (case get_member current key of Inl e \<Rightarrow> Inl e
           | Inr v \<Rightarrow> Inr [Added (currentPath path key) v])
        else
          (case has_in key current of Inl e \<Rightarrow> Inl e
           | Inr in_current \<Rightarrow>
             if \<not> in_current then
               (case get_member baseline key of Inl e \<Rightarrow> Inl e
                | Inr v \<Rightarrow> Inr [Removed (currentPath path key) v])
             else
               (case get_member baseline key of Inl e \<Rightarrow> Inl e
                | Inr baselineValue \<Rightarrow>
                  (case get_member current key of Inl e \<Rightarrow> Inl e
                   | Inr currentValue \<Rightarrow>
                     if typeof baselineValue \<noteq> typeof currentValue then
                       Inr [TypeChanged (currentPath path key) baselineValue currentValue]
                     else if is_object baselineValue \<and> is_object currentValue then
                       (if isArray baselineValue \<and> isArray currentValue then
                          (case for_each
                                  (\<lambda>i. diff_item (the_array baselineValue ! i)
                                         (the_array currentValue ! i)
                                         (itemPath (currentPath path key) i))
                                  [0..<min (length (the_array baselineValue))
                                           (length (the_array currentValue))]
                           of Inl e \<Rightarrow> Inl e
                           | Inr ds \<Rightarrow>
                               Inr ((if length (the_array baselineValue)
                                         \<noteq> length (the_array currentValue)
                                     then [ArrayLengthChanged (currentPath path key)
                                             (length (the_array baselineValue))
                                             (length (the_array currentValue))]
                                     else []) @ ds))
                        else findFieldDifferences baselineValue currentValue
                               (currentPath path key))
                     else if \<not> strict_eq baselineValue currentValue then
                       Inr [ValueChanged (currentPath path key) baselineValue currentValue]
                     else Inr []))))"
| "diff_item baselineItem currentItem ipath =
     (if is_object baselineItem \<and> is_object currentItem then
        findFieldDifferences baselineItem currentItem ipath
      else if \<not> strict_eq baselineItem currentItem then
        Inr [ValueChanged ipath baselineItem currentItem]
      else Inr [])"
  by pat_completeness auto
termination
proof (relation "measure (\<lambda>x. case x of
          Inl (b, c, p) \<Rightarrow> 2 * size b + 1
        | Inr (Inl (b, c, p, k)) \<Rightarrow> 2 * size b
        | Inr (Inr (bi, ci, p)) \<Rightarrow> 2 * size bi + 2)", goal_cases)
  case 1
  show ?case by simp
next
  case (2 baseline current path key)
  show ?case by simp
next
  case (3 baseline current path key in_baseline in_current baselineValue currentValue i)
  then have "size baselineValue < size baseline"
    using size_get_member by blast
  moreover from 3 have "i < length (the_array baselineValue)"
    by simp
  then have "size (the_array baselineValue ! i) < size baselineValue"
    using size_nth by (cases baselineValue) auto
  ultimately show ?case by simp
next
  case (4 baseline current path key in_baseline in_current baselineValue currentValue)
  then have "size baselineValue < size baseline"
    using size_get_member by blast
  then show ?case by simp
next
  case 5
  show ?case by simp
qed

declare findFieldDifferences.simps [simp del] diff_key.simps [simp del] diff_item.simps [simp del]

section \<open>JSON text\<close>

text \<open>
  A JSON text is represented by the document it denotes. \<open>json_value v\<close> is the document that
  \<^verbatim>\<open>JSON.stringify(v)\<close> writes down: a property whose value is \<^verbatim>\<open>undefined\<close> is left out
  and an \<^verbatim>\<open>undefined\<close> array element becomes \<^verbatim>\<open>null\<close>. \<^verbatim>\<open>JSON.stringify(undefined)\<close>
  returns \<^verbatim>\<open>undefined\<close> instead of a string; the indentation argument changes the text but
  not the document.
\<close>

fun json_value :: "jsval \<Rightarrow> jsval" where
  "json_value (JArr xs) = JArr (map (\<lambda>x. if x = JUndefined then JNull else json_value x) xs)"
| "json_value (JObj kvs) =
     JObj (concat (map (\<lambda>kv. if snd kv = JUndefined then [] else [(fst kv, json_value (snd kv))]) kvs))"
| "json_value v = v"

definition JSON_stringify :: "jsval \<Rightarrow> jsval option" where
  "JSON_stringify v = (if v = JUndefined then None else Some (json_value v))"

datatype file_text = JsonText jsval | OtherText string

fun JSON_parse :: "file_text \<Rightarrow> error + jsval" where
  "JSON_parse (JsonText v) = Inr v"
| "JSON_parse (OtherText s) = Inl SyntaxError"

text \<open>A value that JSON can denote: no \<^verbatim>\<open>undefined\<close> anywhere inside.\<close>

fun json_compatible :: "jsval \<Rightarrow> bool" where
  "json_compatible JUndefined = False"
| "json_compatible (JArr xs) = list_all json_compatible xs"
| "json_compatible (JObj kvs) = list_all (\<lambda>kv. json_compatible (snd kv)) kvs"
| "json_compatible v = True"

section \<open>The file system\<close>

text \<open>
  A path is the list of its components below the root. A node is a file (with a write
  permission and its text) or a directory (with a write permission). A path resolves when every
  proper prefix of it is a directory.
\<close>

type_synonym fpath = "string list"

datatype node = File bool file_text | Dir bool

type_synonym filesystem = "fpath \<Rightarrow> node option"

fun is_dir :: "node option \<Rightarrow> bool" where
  "is_dir (Some (Dir w)) = True"
| "is_dir n = False"

definition resolve :: "filesystem \<Rightarrow> fpath \<Rightarrow> node option" where
  "resolve fs p = (if list_all (\<lambda>n. is_dir (fs (take n p))) [0..<length p] then fs p else None)"

definition existsSync :: "filesystem \<Rightarrow> fpath \<Rightarrow> bool" where
  "existsSync fs p = (resolve fs p \<noteq> None)"

definition readFileSync :: "filesystem \<Rightarrow> fpath \<Rightarrow> error + file_text" where
  "readFileSync fs p =
     (case resolve fs p of
        None \<Rightarrow> Inl (IOError ENOENT)
      | Some (Dir w) \<Rightarrow> Inl (IOError EISDIR)
      | Some (File w t) \<Rightarrow> Inr t)"

text \<open>
  \<^verbatim>\<open>fs.writeFileSync(file, data)\<close> opens the file with flag \<^verbatim>\<open>'w'\<close>, writes the data and
  closes it. Opening: the parent must be a directory; an existing file is truncated when it is
  writable, a new empty one is created when the directory is writable. Opening the root finds
  a directory there.
\<close>

definition openSync_w :: "filesystem \<Rightarrow> fpath \<Rightarrow> error + filesystem" where
  "openSync_w fs p =
     (case resolve fs (butlast p) of
        None \<Rightarrow> Inl (IOError ENOENT)
      | Some (File w t) \<Rightarrow> Inl (IOError ENOTDIR)
      | Some (Dir w) \<Rightarrow>
          (case fs p of
             Some (Dir w') \<Rightarrow> Inl (IOError EISDIR)
           | Some (File fw t) \<Rightarrow>
               if fw then Inr (fs(p \<mapsto> File fw (OtherText []))) else Inl (IOError EACCES)
           | None \<Rightarrow>
               if w then Inr (fs(p \<mapsto> File True (OtherText []))) else Inl (IOError EACCES)))"

text \<open>Writing the whole text into the file that has been opened.\<close>

definition writeSync_all :: "filesystem \<Rightarrow> fpath \<Rightarrow> jsval \<Rightarrow> filesystem" where
  "writeSync_all fs p doc =
     (case fs p of
        Some (File fw t) \<Rightarrow> fs(p \<mapsto> File fw (JsonText doc))
      | Some (Dir w) \<Rightarrow> fs
      | None \<Rightarrow> fs)"

text \<open>A \<open>data\<close> that is not a string is a TypeError, raised before the file is opened.\<close>

definition writeFileSync :: "filesystem \<Rightarrow> fpath \<Rightarrow> jsval option \<Rightarrow> error + filesystem" where
  "writeFileSync fs p data =
     (case data of
        None \<Rightarrow> Inl TypeError
      | Some doc \<Rightarrow>
          (case openSync_w fs p of Inl e \<Rightarrow> Inl e
           | Inr opened \<Rightarrow> Inr (writeSync_all opened p doc)))"

text \<open>
  The file systems that another process can meet while \<open>writeFileSync\<close> runs, in order: the
  one it starts from, the one with the file opened and truncated, the one with the text
  written. (A long text is written in several steps; every text met in between is likewise
  incomplete.) A call that raises leaves the file system as it was.
\<close>

definition writeFileSync_states :: "filesystem \<Rightarrow> fpath \<Rightarrow> jsval option \<Rightarrow> filesystem list" where
  "writeFileSync_states fs p data =
     (case data of
        None \<Rightarrow> [fs]
      | Some doc \<Rightarrow>
          (case openSync_w fs p of Inl e \<Rightarrow> [fs]
           | Inr opened \<Rightarrow> [fs, opened, writeSync_all opened p doc]))"

text \<open>What a reader of file \<open>p\<close> gets in each of a list of file systems.\<close>

definition observations :: "filesystem list \<Rightarrow> fpath \<Rightarrow> (error + file_text) list" where
  "observations states p = map (\<lambda>fs. readFileSync fs p) states"

text \<open>A node that stops \<^verbatim>\<open>mkdirSync\<close>: a file, or a directory without write permission.\<close>

fun is_file :: "node option \<Rightarrow> bool" where
  "is_file (Some (File w t)) = True"
| "is_file n = False"

fun blocking :: "node option \<Rightarrow> bool" where
  "blocking (Some (File w t)) = True"
| "blocking (Some (Dir w)) = (\<not> w)"
| "blocking None = False"

text \<open>
  \<^verbatim>\<open>fs.mkdirSync(p, { recursive: true })\<close>: walks down from the root (\<open>pre\<close> is the part
  already walked), creating each missing component.
\<close>

fun mkdir_from :: "filesystem \<Rightarrow> fpath \<Rightarrow> fpath \<Rightarrow> error + filesystem" where
  "mkdir_from fs pre [] = Inr fs"
| "mkdir_from fs pre (c # cs) =
     (case fs pre of
        None \<Rightarrow> Inl (IOError ENOENT)
      | Some (File fw t) \<Rightarrow> Inl (IOError ENOTDIR)
      | Some (Dir w) \<Rightarrow>
          (case fs (pre @ [c]) of
             Some (Dir w') \<Rightarrow> mkdir_from fs (pre @ [c]) cs
           | Some (File fw t) \<Rightarrow> Inl (IOError (if cs = [] then EEXIST else ENOTDIR))
           | None \<Rightarrow>
               if w then mkdir_from (fs(pre @ [c] \<mapsto> Dir True)) (pre @ [c]) cs
               else Inl (IOError EACCES)))"

definition mkdirSync_recursive :: "filesystem \<Rightarrow> fpath \<Rightarrow> error + filesystem" where
  "mkdirSync_recursive fs p = mkdir_from fs [] p"

text \<open>
  \<^verbatim>\<open>path.join(base, name)\<close> for an absolute, normalised \<open>base\<close>: the segments of \<open>name\<close>
  are appended, \<^verbatim>\<open>.\<close> and empty segments dropped, \<^verbatim>\<open>..\<close> stepping up.
\<close>

fun split_sep :: "string \<Rightarrow> string list" where
  "split_sep [] = [[]]"
| "split_sep (c # cs) =
     (if c = CHR ''/'' then [] # split_sep cs
      else (case split_sep cs of s # ss \<Rightarrow> (c # s) # ss | [] \<Rightarrow> [[c]]))"

definition path_join :: "fpath \<Rightarrow> string \<Rightarrow> fpath" where
  "path_join base name =
     foldl (\<lambda>acc seg. if seg = [] \<or> seg = ''.'' then acc
                       else if seg = ''..'' then butlast acc else acc @ [seg])
           base (split_sep name)"

section \<open>Baseline comparison\<close>

text \<open>An entry of \<^verbatim>\<open>missingData\<close> or \<^verbatim>\<open>newData\<close>: \<^verbatim>\<open>{ index, data }\<close>.\<close>

datatype jsonld_entry = Entry nat jsval

text \<open>
  An entry of the json-ld \<^verbatim>\<open>differences\<close>: \<^verbatim>\<open>{ index, baseline, current }\<close> when an item
  carries an error, \<^verbatim>\<open>{ index, baseline, current, fieldDifferences }\<close> otherwise.
\<close>

datatype jsonld_difference =
    ItemDifference nat jsval jsval
  | DataDifference nat jsval jsval "field_difference list"

text \<open>
  The two shapes of result. For meta tags \<^verbatim>\<open>differences\<close> is an object from key to
  \<^verbatim>\<open>{ baseline, current }\<close>.
\<close>

datatype comparison_result =
    JsonLdResult (matches: bool) (differences: "jsonld_difference list")
      (missingData: "jsonld_entry list") (newData: "jsonld_entry list")
  | MetaTagsResult (matches: bool) (tagDifferences: "(string \<times> jsval \<times> jsval) list")
      (missingTags: "string list") (newTags: "string list")

text \<open>
  The elements of an array-like value, as \<^verbatim>\<open>v.length\<close> and \<^verbatim>\<open>v[i]\<close> see them: reading
  \<^verbatim>\<open>length\<close> of \<^verbatim>\<open>null\<close> or \<^verbatim>\<open>undefined\<close> is a TypeError; for a number, a boolean or a
  plain object \<^verbatim>\<open>length\<close> is \<^verbatim>\<open>undefined\<close> (an object with an own property named
  \<^verbatim>\<open>length\<close> is outside the model).
\<close>

fun elements :: "jsval \<Rightarrow> error + jsval list option" where
  "elements JUndefined = Inl TypeError"
| "elements JNull = Inl TypeError"
| "elements (JArr xs) = Inr (Some xs)"
| "elements (JStr s) = Inr (Some (map (\<lambda>c. JStr [c]) s))"
| "elements v = Inr None"

text \<open>\<^verbatim>\<open>{ index: i, data: item.data }\<close>\<close>

definition entry_of :: "jsval list \<Rightarrow> nat \<Rightarrow> error + jsonld_entry list" where
  "entry_of items i =
     (case get_member (items ! i) ''data'' of Inl e \<Rightarrow> Inl e | Inr d \<Rightarrow> Inr [Entry i d])"

text \<open>The body of the loop over the overlapping prefix.\<close>

definition compare_item :: "nat \<Rightarrow> jsval \<Rightarrow> jsval \<Rightarrow> error + jsonld_difference list" where
  "compare_item i baselineItem currentItem =
     (case get_member baselineItem ''error'' of Inl e \<Rightarrow> Inl e
      | Inr baselineError \<Rightarrow>
        (case get_member currentItem ''error'' of Inl e \<Rightarrow> Inl e
         | Inr currentError \<Rightarrow>
           if truthy baselineError \<or> truthy currentError then
             (if \<not> strict_eq baselineError currentError
              then Inr [ItemDifference i baselineItem currentItem] else Inr [])
           else
             (case get_member baselineItem ''data'' of Inl e \<Rightarrow> Inl e
              | Inr baselineData \<Rightarrow>
                (case get_member currentItem ''data'' of Inl e \<Rightarrow> Inl e
                 | Inr currentData \<Rightarrow>
                   if JSON_stringify baselineData \<noteq> JSON_stringify currentData then
                     (case findFieldDifferences baselineData currentData [] of Inl e \<Rightarrow> Inl e
                      | Inr fieldDifferences \<Rightarrow>
                          Inr [DataDifference i baselineData currentData fieldDifferences])
                   else Inr []))))"

definition compareJsonLdWithBaseline :: "jsval \<Rightarrow> jsval \<Rightarrow> error + comparison_result" where
  "compareJsonLdWithBaseline jsonLdData baselineJsonLd =
     (case elements baselineJsonLd of Inl e \<Rightarrow> Inl e
      | Inr None \<Rightarrow>
          (case elements jsonLdData of Inl e \<Rightarrow> Inl e
           | Inr c \<Rightarrow> Inr (JsonLdResult True [] [] []))
      | Inr (Some bs) \<Rightarrow>
          (case elements jsonLdData of Inl e \<Rightarrow> Inl e
           | Inr None \<Rightarrow> Inr (JsonLdResult True [] [] [])
           | Inr (Some cs) \<Rightarrow>
               (case for_each (entry_of bs) [length cs..<length bs] of Inl e \<Rightarrow> Inl e
                | Inr missingData' \<Rightarrow>
                  (case for_each (entry_of cs) [length bs..<length cs] of Inl e \<Rightarrow> Inl e
                   | Inr newData' \<Rightarrow>
                     (case for_each (\<lambda>i. compare_item i (bs ! i) (cs ! i))
                             [0..<min (length bs) (length cs)] of Inl e \<Rightarrow> Inl e
                      | Inr differences' \<Rightarrow>
                          Inr (JsonLdResult
                                 (differences' = [] \<and> missingData' = [] \<and> newData' = [])
                                 differences' missingData' newData'))))))"

text \<open>Storing an own property: replaces the value of an existing key, else appends.\<close>

fun put_property :: "(string \<times> 'a) list \<Rightarrow> string \<Rightarrow> 'a \<Rightarrow> (string \<times> 'a) list" where
  "put_property [] k d = [(k, d)]"
| "put_property ((k', d') # kvs) k d =
     (if k' = k then (k, d) # kvs else (k', d') # put_property kvs k d)"

text \<open>
  \<^verbatim>\<open>differences[key] = d\<close> on an object created by \<^verbatim>\<open>{}\<close>, for an object \<open>d\<close>: an own
  property is stored, except for the key \<^verbatim>\<open>__proto__\<close>, where the assignment runs the setter
  inherited from \<^verbatim>\<open>Object.prototype\<close>: the prototype is replaced and no own property is
  created, so \<^verbatim>\<open>Object.keys\<close> does not list the key.
\<close>

definition set_property :: "(string \<times> 'a) list \<Rightarrow> string \<Rightarrow> 'a \<Rightarrow> (string \<times> 'a) list" where
  "set_property kvs k d = (if k = ''__proto__'' then kvs else put_property kvs k d)"

text \<open>The first \<^verbatim>\<open>forEach\<close>, over the keys of the baseline, with its two accumulators.\<close>

fun baseline_tags :: "jsval \<Rightarrow> jsval \<Rightarrow> string list
    \<Rightarrow> (string \<times> jsval \<times> jsval) list \<times> string list
    \<Rightarrow> error + (string \<times> jsval \<times> jsval) list \<times> string list" where
  "baseline_tags metaTags baselineMetaTags [] acc = Inr acc"
| "baseline_tags metaTags baselineMetaTags (key # keys) (differences', missingTags') =
     (case get_member metaTags key of Inl e \<Rightarrow> Inl e
      | Inr tag \<Rightarrow>
        if \<not> truthy tag then
          baseline_tags metaTags baselineMetaTags keys (differences', missingTags' @ [key])
        else
          (case get_member baselineMetaTags key of Inl e \<Rightarrow> Inl e
           | Inr baselineTag \<Rightarrow>
             (case get_member baselineTag ''content'' of Inl e \<Rightarrow> Inl e
              | Inr baselineContent \<Rightarrow>
                (case get_member tag ''content'' of Inl e \<Rightarrow> Inl e
                 | Inr currentContent \<Rightarrow>
                   if \<not> strict_eq baselineContent currentContent then
                     baseline_tags metaTags baselineMetaTags keys
                       (set_property differences' key (baselineContent, currentContent),
                        missingTags')
                   else baseline_tags metaTags baselineMetaTags keys
                          (differences', missingTags')))))"

text \<open>The second \<^verbatim>\<open>forEach\<close>, over the keys of the current tags.\<close>

definition new_tag :: "jsval \<Rightarrow> string \<Rightarrow> error + string list" where
  "new_tag baselineMetaTags key =
     (case get_member baselineMetaTags key of Inl e \<Rightarrow> Inl e
      | Inr baselineTag \<Rightarrow> Inr (if \<not> truthy baselineTag then [key] else []))"

definition compareMetaTagsWithBaseline :: "jsval \<Rightarrow> jsval \<Rightarrow> error + comparison_result" where
  "compareMetaTagsWithBaseline metaTags baselineMetaTags =
     (case Object_keys baselineMetaTags of Inl e \<Rightarrow> Inl e
      | Inr baselineKeys \<Rightarrow>
        (case baseline_tags metaTags baselineMetaTags baselineKeys ([], []) of Inl e \<Rightarrow> Inl e
         | Inr (differences', missingTags') \<Rightarrow>
           (case Object_keys metaTags of Inl e \<Rightarrow> Inl e
            | Inr currentKeys \<Rightarrow>
              (case for_each (new_tag baselineMetaTags) currentKeys of Inl e \<Rightarrow> Inl e
               | Inr newTags' \<Rightarrow>
                   Inr (MetaTagsResult
                          (differences' = [] \<and> missingTags' = [] \<and> newTags' = [])
                          differences' missingTags' newTags')))))"

text \<open>\<^verbatim>\<open>path.join(baselinePath, `${pageName}-baseline.json`)\<close>\<close>

definition baselineFile :: "fpath \<Rightarrow> string \<Rightarrow> fpath" where
  "baselineFile baselinePath pageName = path_join baselinePath (pageName @ ''-baseline.json'')"

text \<open>The object written on the first run: no timestamp.\<close>

definition first_baseline :: "jsval \<Rightarrow> string \<Rightarrow> error + jsval" where
  "first_baseline extractedData baselineType =
     (if baselineType = ''json-ld'' then
        (case get_member extractedData ''length'' of Inl e \<Rightarrow> Inl e
         | Inr n \<Rightarrow> Inr (JObj [(''jsonLdData'', extractedData), (''count'', n)]))
      else
        (case Object_keys extractedData of Inl e \<Rightarrow> Inl e
         | Inr ks \<Rightarrow> Inr (JObj [(''metaTags'', extractedData),
                                 (''metaTagCount'', JNum (of_nat (length ks)))])))"

text \<open>Lines 60 to 70: the payload of a parsed baseline file that the comparison reads.\<close>

definition baseline_payload :: "jsval \<Rightarrow> string \<Rightarrow> error + jsval" where
  "baseline_payload baselineData baselineType =
     (if baselineType = ''json-ld'' then get_member baselineData ''jsonLdData''
      else if baselineType = ''meta-tags'' then get_member baselineData ''metaTags''
      else Inl (UnsupportedBaselineType baselineType))"

definition compare_payload :: "jsval \<Rightarrow> jsval \<Rightarrow> string \<Rightarrow> error + comparison_result" where
  "compare_payload extractedData baselineData baselineType =
     (if baselineType = ''json-ld'' then
        (case get_member baselineData ''jsonLdData'' of Inl e \<Rightarrow> Inl e
         | Inr b \<Rightarrow> compareJsonLdWithBaseline extractedData b)
      else if baselineType = ''meta-tags'' then
        (case get_member baselineData ''metaTags'' of Inl e \<Rightarrow> Inl e
         | Inr b \<Rightarrow> compareMetaTagsWithBaseline extractedData b)
      else Inl (UnsupportedBaselineType baselineType))"

text \<open>
  \<open>compareWithBaseline\<close> takes the file system and returns it with the result; an exception
  leaves no result.
\<close>

definition compareWithBaseline ::
    "filesystem \<Rightarrow> jsval \<Rightarrow> string \<Rightarrow> fpath \<Rightarrow> string \<Rightarrow> error + filesystem \<times> comparison_result" where
  "compareWithBaseline fs extractedData pageName baselinePath baselineType =
     (if \<not> existsSync fs (baselineFile baselinePath pageName) then
        (case first_baseline extractedData baselineType of Inl e \<Rightarrow> Inl e
         | Inr baselineData \<Rightarrow>
           (case writeFileSync fs (baselineFile baselinePath pageName)
                   (JSON_stringify baselineData) of Inl e \<Rightarrow> Inl e
            | Inr fs' \<Rightarrow>
                Inr (fs', if baselineType = ''json-ld'' then JsonLdResult True [] [] []
                          else MetaTagsResult True [] [] [])))
      else
        (case readFileSync fs (baselineFile baselinePath pageName) of Inl e \<Rightarrow> Inl e
         | Inr text \<Rightarrow>
           (case JSON_parse text of Inl e \<Rightarrow> Inl e
            | Inr baselineData \<Rightarrow>
              (case compare_payload extractedData baselineData baselineType of Inl e \<Rightarrow> Inl e
               | Inr r \<Rightarrow> Inr (fs, r)))))"

text \<open>\<open>now\<close> is \<^verbatim>\<open>new Date().toISOString()\<close>.\<close>

definition updated_baseline :: "string \<Rightarrow> jsval \<Rightarrow> string \<Rightarrow> error + jsval" where
  "updated_baseline now extractedData baselineType =
     (if baselineType = ''json-ld'' then
        (case get_member extractedData ''length'' of Inl e \<Rightarrow> Inl e
         | Inr n \<Rightarrow> Inr (JObj [(''jsonLdData'', extractedData), (''count'', n),
                                (''lastUpdated'', JStr now)]))
      else
        (case Object_keys extractedData of Inl e \<Rightarrow> Inl e
         | Inr ks \<Rightarrow> Inr (JObj [(''metaTags'', extractedData),
                                 (''metaTagCount'', JNum (of_nat (length ks))),
                                 (''lastUpdated'', JStr now)])))"

definition updateBaseline ::
    "filesystem \<Rightarrow> string \<Rightarrow> jsval \<Rightarrow> string \<Rightarrow> fpath \<Rightarrow> string \<Rightarrow> error + filesystem" where
  "updateBaseline fs now extractedData pageName baselinePath baselineType =
     (case updated_baseline now extractedData baselineType of Inl e \<Rightarrow> Inl e
      | Inr baselineData \<Rightarrow>
          writeFileSync fs (baselineFile baselinePath pageName) (JSON_stringify baselineData))"

definition ensureBaselineDirectory :: "filesystem \<Rightarrow> fpath \<Rightarrow> error + filesystem" where
  "ensureBaselineDirectory fs baselinePath =
     (if \<not> existsSync fs baselinePath then mkdirSync_recursive fs baselinePath else Inr fs)"

text \<open>
  The file systems that another process can meet while \<open>updateBaseline\<close> runs, and while
  the first run of \<open>compareWithBaseline\<close> creates the baseline: those of the one
  \<open>writeFileSync\<close> on the baseline file; nothing is written when the baseline object cannot
  be built.
\<close>

definition updateBaseline_states ::
    "filesystem \<Rightarrow> string \<Rightarrow> jsval \<Rightarrow> string \<Rightarrow> fpath \<Rightarrow> string \<Rightarrow> filesystem list" where
  "updateBaseline_states fs now extractedData pageName baselinePath baselineType =
     (case updated_baseline now extractedData baselineType of Inl e \<Rightarrow> [fs]
      | Inr baselineData \<Rightarrow>
          writeFileSync_states fs (baselineFile baselinePath pageName)
            (JSON_stringify baselineData))"

definition first_run_states ::
    "filesystem \<Rightarrow> jsval \<Rightarrow> string \<Rightarrow> fpath \<Rightarrow> string \<Rightarrow> filesystem list" where
  "first_run_states fs extractedData pageName baselinePath baselineType =
     (case first_baseline extractedData baselineType of Inl e \<Rightarrow> [fs]
      | Inr baselineData \<Rightarrow>
          writeFileSync_states fs (baselineFile baselinePath pageName)
            (JSON_stringify baselineData))"

text \<open>
  Reading a baseline back, as \<open>compareWithBaseline\<close> does before it compares: the file is
  read and parsed, and the payload of the kind is taken out.
\<close>

definition loadBaseline :: "filesystem \<Rightarrow> string \<Rightarrow> fpath \<Rightarrow> string \<Rightarrow> error + jsval" where
  "loadBaseline fs pageName baselinePath baselineType =
     (case readFileSync fs (baselineFile baselinePath pageName) of Inl e \<Rightarrow> Inl e
      | Inr text \<Rightarrow>
        (case JSON_parse text of Inl e \<Rightarrow> Inl e
         | Inr baselineData \<Rightarrow> baseline_payload baselineData baselineType))"

section \<open>Result buckets and example inputs\<close>

text \<open>The three difference buckets of a result are all empty.\<close>

fun buckets_empty :: "comparison_result \<Rightarrow> bool" where
  "buckets_empty (JsonLdResult m d mi n) = (d = [] \<and> mi = [] \<and> n = [])"
| "buckets_empty (MetaTagsResult m d mi n) = (d = [] \<and> mi = [] \<and> n = [])"

definition example_tags :: "string \<Rightarrow> jsval" where
  "example_tags title = JObj [(''title'', JObj [(''content'', JStr title)])]"

text \<open>A baseline directory holding the meta-tags baseline of page \<^verbatim>\<open>home\<close>.\<close>

definition example_fs :: filesystem where
  "example_fs = [[] \<mapsto> Dir True, [''baselines''] \<mapsto> Dir True,
     [''baselines'', ''home-baseline.json''] \<mapsto>
       File True (JsonText (JObj [(''metaTags'', example_tags ''A''),
                                  (''metaTagCount'', JNum 1)]))]"

text \<open>An empty baseline directory.\<close>

definition empty_fs :: filesystem where
  "empty_fs = [[] \<mapsto> Dir True, [''baselines''] \<mapsto> Dir True]"

text \<open>The baseline path taken by a regular file, and by a directory without write permission.\<close>

definition file_fs :: filesystem where
  "file_fs = [[] \<mapsto> Dir True, [''baselines''] \<mapsto> File True (OtherText ''notes'')]"

definition readonly_fs :: filesystem where
  "readonly_fs = [[] \<mapsto> Dir True, [''baselines''] \<mapsto> Dir False]"

text \<open>
  What the meta-tags comparison can see of a tag: whether it is truthy, and its
  \<^verbatim>\<open>content\<close>. Two tag maps have the same content when they list the same keys in the same
  order and their tags agree on that view; every other attribute is free to differ.
\<close>

definition tag_view :: "jsval \<Rightarrow> bool \<times> (error + jsval)" where
  "tag_view t = (truthy t, get_member t ''content'')"

definition same_content :: "(string \<times> jsval) list \<Rightarrow> (string \<times> jsval) list \<Rightarrow> bool" where
  "same_content m m' = (map fst m = map fst m' \<and> map (tag_view \<circ> snd) m = map (tag_view \<circ> snd) m')"

text \<open>The tag that \<^verbatim>\<open>tags[key]\<close> reads from a tag map.\<close>

definition tag_of :: "(string \<times> jsval) list \<Rightarrow> string \<Rightarrow> jsval" where
  "tag_of m k = (case map_of m k of Some v \<Rightarrow> v | None \<Rightarrow> JUndefined)"

text \<open>Every tag of a tag map is an object.\<close>

definition tags_are_objects :: "(string \<times> jsval) list \<Rightarrow> bool" where
  "tags_are_objects m = list_all (\<lambda>kv. is_object (snd kv)) m"

text \<open>A tag map with the one tag \<^verbatim>\<open>meta_description\<close>, given its attributes.\<close>

definition description_tag :: "(string \<times> jsval) list \<Rightarrow> (string \<times> jsval) list" where
  "description_tag attrs = [(''meta_description'', JObj attrs)]"

text \<open>A tag map whose one tag is an own property named \<^verbatim>\<open>__proto__\<close>, as a JSON file can hold.\<close>

definition proto_tag :: "string \<Rightarrow> (string \<times> jsval) list" where
  "proto_tag c = [(''__proto__'', JObj [(''content'', JStr c)])]"

section \<open>The matches flag\<close>

lemma compareJsonLd_matches:
  "compareJsonLdWithBaseline d b = Inr r \<Longrightarrow> matches r = buckets_empty r"
  by (auto simp: compareJsonLdWithBaseline_def split: sum.splits option.splits)

lemma compareMetaTags_matches:
  "compareMetaTagsWithBaseline d b = Inr r \<Longrightarrow> matches r = buckets_empty r"
  by (auto simp: compareMetaTagsWithBaseline_def split: sum.splits prod.splits)

lemma compare_payload_matches:
  "compare_payload d b t = Inr r \<Longrightarrow> matches r = buckets_empty r"
  by (auto simp: compare_payload_def compareJsonLd_matches compareMetaTags_matches
           split: sum.splits if_splits)

lemma example_file:
  "baselineFile [''baselines''] ''home'' = [''baselines'', ''home-baseline.json'']"
  by (simp add: baselineFile_def path_join_def)

lemma example_comparison:
  "compareWithBaseline example_fs (example_tags ''B'') ''home'' [''baselines''] ''meta-tags''
     = Inr (example_fs, MetaTagsResult False [(''title'', JStr ''A'', JStr ''B'')] [] [])"
  by (simp add: compareWithBaseline_def existsSync_def resolve_def example_fs_def
      example_tags_def example_file readFileSync_def compare_payload_def
      compareMetaTagsWithBaseline_def new_tag_def set_property_def)

text \<open>
  Claim C1. Whenever \<open>compareWithBaseline\<close> returns a result, on the first run or after a
  comparison of either kind with an existing baseline, the \<open>matches\<close> flag of the result is
  true if and only if its three buckets (differences, missing entries, new entries) are empty.
\<close>

theorem matches_iff_buckets_empty:
  assumes "compareWithBaseline fs extractedData pageName baselinePath baselineType = Inr (fs', r)"
  shows "matches r \<longleftrightarrow> buckets_empty r"
proof (cases "existsSync fs (baselineFile baselinePath pageName)")
  case True
  with assms obtain baselineData where
    "compare_payload extractedData baselineData baselineType = Inr r"
    by (auto simp: compareWithBaseline_def split: sum.splits)
  then show ?thesis by (rule compare_payload_matches)
next
  case False
  with assms have "r = JsonLdResult True [] [] [] \<or> r = MetaTagsResult True [] [] []"
    by (auto simp: compareWithBaseline_def split: sum.splits if_splits)
  then show ?thesis by auto
qed

theorem matches_iff_buckets_empty_witness:
  "compareWithBaseline example_fs (example_tags ''B'') ''home'' [''baselines''] ''meta-tags''
     = Inr (example_fs, MetaTagsResult False [(''title'', JStr ''A'', JStr ''B'')] [] [])
   \<and> (matches (MetaTagsResult False [(''title'', JStr ''A'', JStr ''B'')] [] [])
        \<longleftrightarrow> buckets_empty (MetaTagsResult False [(''title'', JStr ''A'', JStr ''B'')] [] []))"
  by (rule conjI [OF example_comparison matches_iff_buckets_empty [OF example_comparison]])

section \<open>Properties of the field-level differ\<close>


lemma for_each_total:
  "(\<And>x. x \<in> set xs \<Longrightarrow> \<exists>ds. f x = Inr ds) \<Longrightarrow> \<exists>ds. for_each f xs = Inr ds"
proof (induction xs)
  case Nil
  show ?case by simp
next
  case (Cons x xs)
  from Cons.prems obtain d where "f x = Inr d" by auto
  moreover from Cons obtain ds where "for_each f xs = Inr ds" by auto
  ultimately show ?case by simp
qed

lemma for_each_member:
  "for_each f xs = Inr ds \<Longrightarrow> d \<in> set ds \<Longrightarrow> \<exists>x\<in>set xs. \<exists>ds'. f x = Inr ds' \<and> d \<in> set ds'"
  by (induction xs arbitrary: ds) (auto split: sum.splits)

lemma for_each_contains:
  "for_each f xs = Inr ds \<Longrightarrow> x \<in> set xs \<Longrightarrow> f x = Inr ds' \<Longrightarrow> set ds' \<subseteq> set ds"
  by (induction xs arbitrary: ds) (auto split: sum.splits)

lemma has_in_object: "is_object b \<Longrightarrow> \<exists>x. has_in k b = Inr x"
  by (cases b) auto

lemma has_in_is_object: "has_in k b = Inr x \<Longrightarrow> is_object b"
  by (cases b) auto

lemma get_member_object: "is_object b \<Longrightarrow> \<exists>v. get_member b k = Inr v"
  by (cases b) auto

lemma differ_total:
  shows "is_object b \<Longrightarrow> is_object c \<Longrightarrow> \<exists>ds. findFieldDifferences b c p = Inr ds"
    and "is_object b \<Longrightarrow> is_object c \<Longrightarrow> \<exists>ds. diff_key b c p k = Inr ds"
    and "\<exists>ds. diff_item bi ci ip = Inr ds"
proof (induction b c p and b c p k and bi ci ip
       rule: findFieldDifferences_diff_key_diff_item.induct)
  case (1 baseline current path)
  then show ?case
    by (simp add: findFieldDifferences.simps for_each_total)
next
  case (2 baseline current path key)
  from 2(3) obtain inb where inb: "has_in key baseline = Inr inb"
    using has_in_object by blast
  from 2(4) obtain inc where inc: "has_in key current = Inr inc"
    using has_in_object by blast
  from 2(3) obtain bv where bv: "get_member baseline key = Inr bv"
    using get_member_object by blast
  from 2(4) obtain cv where cv: "get_member current key = Inr cv"
    using get_member_object by blast
  show ?case
  proof (cases "inb \<and> inc \<and> typeof bv = typeof cv \<and> is_object bv \<and> is_object cv")
    case False
    then show ?thesis
      using inb inc bv cv by (auto simp: diff_key.simps)
  next
    case True
    show ?thesis
    proof (cases "isArray bv \<and> isArray cv")
      case arr: True
      have "\<exists>ds. for_each (\<lambda>i. diff_item (the_array bv ! i) (the_array cv ! i)
                 (itemPath (currentPath path key) i))
               [0..<min (length (the_array bv)) (length (the_array cv))] = Inr ds"
        by (rule for_each_total) (use 2(1) inb inc bv cv True arr in blast)
      then show ?thesis
        using inb inc bv cv True arr by (auto simp: diff_key.simps)
    next
      case noarr: False
      have "\<exists>ds. findFieldDifferences bv cv (currentPath path key) = Inr ds"
        using 2(2) inb inc bv cv True noarr by blast
      then show ?thesis
        using inb inc bv cv True noarr by (auto simp: diff_key.simps)
    qed
  qed
next
  case (3 baselineItem currentItem ipath)
  then show ?case
    by (auto simp: diff_item.simps)
qed

lemma diff_key_cases [consumes 1, case_names added removed type_changed arrays objects value_changed equal]:
  assumes "diff_key b c p k = Inr ds"
  obtains
    v where "has_in k b = Inr False" "get_member c k = Inr v"
      "ds = [Added (currentPath p k) v]"
  | v where "has_in k b = Inr True" "has_in k c = Inr False" "get_member b k = Inr v"
      "ds = [Removed (currentPath p k) v]"
  | bv cv where "has_in k b = Inr True" "has_in k c = Inr True"
      "get_member b k = Inr bv" "get_member c k = Inr cv" "typeof bv \<noteq> typeof cv"
      "ds = [TypeChanged (currentPath p k) bv cv]"
  | xs ys items where "has_in k b = Inr True" "has_in k c = Inr True"
      "get_member b k = Inr (JArr xs)" "get_member c k = Inr (JArr ys)"
      "for_each (\<lambda>i. diff_item (xs ! i) (ys ! i) (itemPath (currentPath p k) i))
         [0..<min (length xs) (length ys)] = Inr items"
      "ds = (if length xs \<noteq> length ys
             then [ArrayLengthChanged (currentPath p k) (length xs) (length ys)] else []) @ items"
  | bv cv where "has_in k b = Inr True" "has_in k c = Inr True"
      "get_member b k = Inr bv" "get_member c k = Inr cv" "typeof bv = typeof cv"
      "is_object bv" "is_object cv" "\<not> (isArray bv \<and> isArray cv)"
      "findFieldDifferences bv cv (currentPath p k) = Inr ds"
  | bv cv where "has_in k b = Inr True" "has_in k c = Inr True"
      "get_member b k = Inr bv" "get_member c k = Inr cv" "typeof bv = typeof cv"
      "\<not> (is_object bv \<and> is_object cv)" "\<not> strict_eq bv cv"
      "ds = [ValueChanged (currentPath p k) bv cv]"
  | "ds = []"
proof -
  from assms obtain inb where inb: "has_in k b = Inr inb"
    by (auto simp: diff_key.simps split: sum.splits)
  show thesis
  proof (cases inb)
    case False
    with assms inb that(1) show thesis
      by (auto simp: diff_key.simps split: sum.splits)
  next
    case True
    with assms inb obtain inc where inc: "has_in k c = Inr inc"
      by (auto simp: diff_key.simps split: sum.splits)
    show thesis
    proof (cases inc)
      case False
      with assms inb inc True that(2) show thesis
        by (auto simp: diff_key.simps split: sum.splits)
    next
      case incT: True
      with assms inb inc True obtain bv cv where
        bv: "get_member b k = Inr bv" and cv: "get_member c k = Inr cv"
        by (auto simp: diff_key.simps split: sum.splits)
      note ctx = inb inc True incT bv cv
      show thesis
      proof (cases "typeof bv \<noteq> typeof cv")
        case True
        with assms ctx that(3) show thesis
          by (auto simp: diff_key.simps)
      next
        case ty: False
        show thesis
        proof (cases "is_object bv \<and> is_object cv")
          case False
          with assms ctx ty that(6) that(7) show thesis
            by (auto simp: diff_key.simps split: if_splits)
        next
          case obj: True
          show thesis
          proof (cases "isArray bv \<and> isArray cv")
            case False
            with assms ctx ty obj that(5) show thesis
              by (auto simp: diff_key.simps split: if_splits)
          next
            case True
            then obtain xs ys where "bv = JArr xs" "cv = JArr ys"
              by (cases bv; cases cv) auto
            with assms ctx ty that(4) show thesis
              by (auto simp: diff_key.simps split: sum.splits)
          qed
        qed
      qed
    qed
  qed
qed

lemma diff_item_cases [consumes 1, case_names objects value_changed equal]:
  assumes "diff_item bi ci ip = Inr ds"
  obtains "is_object bi" "is_object ci" "findFieldDifferences bi ci ip = Inr ds"
  | "\<not> (is_object bi \<and> is_object ci)" "\<not> strict_eq bi ci" "ds = [ValueChanged ip bi ci]"
  | "ds = []"
  using assms by (auto simp: diff_item.simps split: if_splits)

lemma differ_paths:
  shows "findFieldDifferences b c p = Inr ds \<Longrightarrow> d \<in> set ds \<Longrightarrow> \<exists>s. diff_path d = p @ s"
    and "diff_key b c p k = Inr ds \<Longrightarrow> d \<in> set ds \<Longrightarrow> \<exists>s. diff_path d = currentPath p k @ s"
    and "diff_item bi ci ip = Inr ds \<Longrightarrow> d \<in> set ds \<Longrightarrow> \<exists>s. diff_path d = ip @ s"
proof (induction b c p and b c p k and bi ci ip arbitrary: ds and ds and ds
       rule: findFieldDifferences_diff_key_diff_item.induct)
  case (1 baseline current path)
  from 1(2,3) obtain key ds' where key: "key \<in> set (allKeys baseline current)"
    and ds': "diff_key baseline current path key = Inr ds'" "d \<in> set ds'"
    by (auto simp: findFieldDifferences.simps dest!: for_each_member)
  from 1(1) [OF key ds'] obtain s where "diff_path d = currentPath path key @ s" ..
  then show ?case by (auto simp: currentPath_def)
next
  case (2 baseline current path key)
  from 2(3) show ?case
  proof (cases rule: diff_key_cases)
    case (arrays xs ys items)
    show ?thesis
    proof (cases "d \<in> set items")
      case True
      with arrays(5) obtain i ds' where i: "i \<in> set [0..<min (length xs) (length ys)]"
        and ds': "diff_item (xs ! i) (ys ! i) (itemPath (currentPath path key) i) = Inr ds'"
                 "d \<in> set ds'"
        by (auto dest!: for_each_member)
      have "\<exists>s. diff_path d = itemPath (currentPath path key) i @ s"
        using 2(1) [OF arrays(1) _ arrays(2) _ arrays(3) arrays(4) _ _ _ _ _ ds'(2)] i ds'(1)
        by simp
      then show ?thesis by (auto simp: itemPath_def)
    next
      case False
      with 2(4) arrays(6) show ?thesis by (auto split: if_splits)
    qed
  next
    case (objects bv cv)
    show ?thesis
      using 2(2) [OF objects(1) _ objects(2) _ objects(3) objects(4) _ _ _ objects(9) 2(4)]
        objects by simp
  qed (use 2(4) in auto)
next
  case (3 baselineItem currentItem ipath)
  from 3(2) show ?case
  proof (cases rule: diff_item_cases)
    case objects
    then show ?thesis using 3(1) 3(3) by blast
  qed (use 3(3) in auto)
qed

lemma differ_type_changed:
  shows "findFieldDifferences b c p = Inr ds \<Longrightarrow> TypeChanged q x y \<in> set ds \<Longrightarrow> typeof x \<noteq> typeof y"
    and "diff_key b c p k = Inr ds \<Longrightarrow> TypeChanged q x y \<in> set ds \<Longrightarrow> typeof x \<noteq> typeof y"
    and "diff_item bi ci ip = Inr ds \<Longrightarrow> TypeChanged q x y \<in> set ds \<Longrightarrow> typeof x \<noteq> typeof y"
proof (induction b c p and b c p k and bi ci ip arbitrary: ds and ds and ds
       rule: findFieldDifferences_diff_key_diff_item.induct)
  case (1 baseline current path)
  from 1(2,3) obtain key ds' where key: "key \<in> set (allKeys baseline current)"
    and ds': "diff_key baseline current path key = Inr ds'" "TypeChanged q x y \<in> set ds'"
    by (auto simp: findFieldDifferences.simps dest!: for_each_member)
  from 1(1) [OF key ds'] show ?case .
next
  case (2 baseline current path key)
  from 2(3) show ?case
  proof (cases rule: diff_key_cases)
    case (arrays xs ys items)
    with 2(4) have "TypeChanged q x y \<in> set items" by (auto split: if_splits)
    with arrays(5) obtain i ds' where i: "i \<in> set [0..<min (length xs) (length ys)]"
      and ds': "diff_item (xs ! i) (ys ! i) (itemPath (currentPath path key) i) = Inr ds'"
               "TypeChanged q x y \<in> set ds'"
      by (auto dest!: for_each_member)
    show ?thesis
      using 2(1) [OF arrays(1) _ arrays(2) _ arrays(3) arrays(4) _ _ _ _ _ ds'(2)] i ds'(1)
      by simp
  next
    case (objects bv cv)
    show ?thesis
      using 2(2) [OF objects(1) _ objects(2) _ objects(3) objects(4) _ _ _ objects(9) 2(4)]
        objects by simp
  qed (use 2(4) in auto)
next
  case (3 baselineItem currentItem ipath)
  from 3(2) show ?case
  proof (cases rule: diff_item_cases)
    case objects
    then show ?thesis using 3(1) 3(3) by blast
  qed (use 3(3) in auto)
qed

lemma index_of_Some: "index_of k n = Some i \<Longrightarrow> show_nat i = k \<and> i < n"
  by (induction n) (auto split: option.splits if_splits)

lemma index_of_keys: "(index_of k n \<noteq> None) = (k \<in> set (map show_nat [0..<n]))"
  by (induction n) (auto split: option.splits)

lemma set_foldl_insert:
  "set (foldl (\<lambda>acc k. if k \<in> set acc then acc else acc @ [k]) acc ks) = set acc \<union> set ks"
  by (induction ks arbitrary: acc) auto

lemma set_new_Set: "set (new_Set ks) = set ks"
  by (simp add: new_Set_def set_foldl_insert)

lemma set_allKeys:
  "is_object b \<Longrightarrow> is_object c \<Longrightarrow> set (allKeys b c) = set (own_keys b) \<union> set (own_keys c)"
  by (cases b; cases c) (auto simp: allKeys_def set_new_Set keys_or_empty_def)

lemma get_member_present:
  assumes "get_member b k = Inr v" "v = JNull \<or> is_object v"
  shows "has_in k b = Inr True \<and> k \<in> set (own_keys b)"
proof (cases b)
  case (JObj kvs)
  with assms have "map_of kvs k = Some v"
    by (auto split: option.splits)
  then have "k \<in> fst ` set kvs"
    by (force dest: map_of_SomeD)
  with JObj show ?thesis by simp
next
  case (JArr xs)
  with assms have "index_of k (length xs) \<noteq> None"
    by (auto split: if_splits option.splits)
  with JArr show ?thesis
    using index_of_keys [of k "length xs"] by auto
qed (use assms in \<open>auto split: if_splits option.splits\<close>)

lemma has_in_allKeys:
  assumes "has_in k a = Inr True" "has_in k b = Inr True"
    "get_member a k = Inr av" "get_member b k = Inr bv" "typeof av \<noteq> typeof bv"
  shows "k \<in> set (allKeys a b)"
proof -
  have obj: "is_object a" "is_object b"
    using assms(1,2) has_in_is_object by blast+
  show ?thesis
  proof (cases "k \<in> set (own_keys a) \<or> k \<in> set (own_keys b)")
    case True
    then show ?thesis using obj by (simp add: set_allKeys)
  next
    case False
    with assms(1,2) obtain xs ys where "a = JArr xs" "b = JArr ys" "k = ''length''"
      by (cases a; cases b) (auto dest!: index_of_Some)
    with assms(3,4,5) show ?thesis by auto
  qed
qed

lemma diff_key_in_output:
  assumes "is_object b" "is_object c" "k \<in> set (allKeys b c)" "diff_key b c p k = Inr ds'"
  shows "\<exists>ds. findFieldDifferences b c p = Inr ds \<and> set ds' \<subseteq> set ds"
proof -
  obtain ds where ds: "findFieldDifferences b c p = Inr ds"
    using differ_total(1) [OF assms(1,2)] by blast
  then have "for_each (\<lambda>key. diff_key b c p key) (allKeys b c) = Inr ds"
    by (simp add: findFieldDifferences.simps)
  from for_each_contains [OF this assms(3,4)] ds show ?thesis by blast
qed

text \<open>
  Claim C2, as amended. When the baseline value of a key is \<^verbatim>\<open>null\<close> and the current value is
  an array or an object (or the other way round), the differ emits for that key exactly one
  difference, a \<open>value_changed\<close> carrying both values: \<^verbatim>\<open>typeof null\<close> is \<^verbatim>\<open>'object'\<close>, so
  no \<open>type_changed\<close> is reported, and the \<^verbatim>\<open>!== null\<close> guards keep the differ from descending
  into the object. The same holds for two array elements.
\<close>

theorem null_against_object_value_changed:
  assumes "get_member baseline key = Inr JNull"
    and "get_member current key = Inr v"
    and "is_object v"
  shows "diff_key baseline current path key = Inr [ValueChanged (currentPath path key) JNull v]
    \<and> diff_key current baseline path key = Inr [ValueChanged (currentPath path key) v JNull]
    \<and> (\<exists>ds. findFieldDifferences baseline current path = Inr ds
          \<and> ValueChanged (currentPath path key) JNull v \<in> set ds
          \<and> TypeChanged (currentPath path key) JNull v \<notin> set ds)
    \<and> (\<exists>ds. findFieldDifferences current baseline path = Inr ds
          \<and> ValueChanged (currentPath path key) v JNull \<in> set ds
          \<and> TypeChanged (currentPath path key) v JNull \<notin> set ds)
    \<and> diff_item JNull v path = Inr [ValueChanged path JNull v]
    \<and> diff_item v JNull path = Inr [ValueChanged path v JNull]"
proof -
  have b: "has_in key baseline = Inr True" "key \<in> set (own_keys baseline)"
    using get_member_present [OF assms(1)] by auto
  have c: "has_in key current = Inr True" "key \<in> set (own_keys current)"
    using get_member_present [OF assms(2)] assms(3) by auto
  have obj: "is_object baseline" "is_object current"
    using b(1) c(1) has_in_is_object by blast+
  have ty: "typeof JNull = typeof v" "\<not> strict_eq JNull v" "\<not> strict_eq v JNull"
    using assms(3) by (cases v; simp)+
  have k1: "diff_key baseline current path key = Inr [ValueChanged (currentPath path key) JNull v]"
    using b(1) c(1) assms ty by (simp add: diff_key.simps)
  have k2: "diff_key current baseline path key = Inr [ValueChanged (currentPath path key) v JNull]"
    using b(1) c(1) assms ty by (simp add: diff_key.simps)
  have keys: "key \<in> set (allKeys baseline current)" "key \<in> set (allKeys current baseline)"
    using b(2) obj by (simp_all add: set_allKeys)
  obtain ds1 where ds1: "findFieldDifferences baseline current path = Inr ds1"
    "ValueChanged (currentPath path key) JNull v \<in> set ds1"
    using diff_key_in_output [OF obj keys(1) k1] by auto
  obtain ds2 where ds2: "findFieldDifferences current baseline path = Inr ds2"
    "ValueChanged (currentPath path key) v JNull \<in> set ds2"
    using diff_key_in_output [OF obj(2,1) keys(2) k2] by auto
  have n1: "TypeChanged (currentPath path key) JNull v \<notin> set ds1"
    using differ_type_changed(1) [OF ds1(1)] ty(1) by blast
  have n2: "TypeChanged (currentPath path key) v JNull \<notin> set ds2"
    using differ_type_changed(1) [OF ds2(1)] ty(1) by fastforce
  have i: "diff_item JNull v path = Inr [ValueChanged path JNull v]"
    "diff_item v JNull path = Inr [ValueChanged path v JNull]"
    using ty by (simp_all add: diff_item.simps)
  show ?thesis
    using k1 k2 ds1 ds2 n1 n2 i by blast
qed

text \<open>
  Claim C3, as amended. The type check is applied to the two values of a key, not to the two
  arguments: when a key of both objects holds values of different \<^verbatim>\<open>typeof\<close>, the differ
  emits for that key exactly one difference, a \<open>type_changed\<close> at the path of the key carrying
  both values, and the output of \<open>findFieldDifferences\<close> contains it.
\<close>

theorem type_mismatch_at_key:
  assumes "has_in key a = Inr True" and "has_in key b = Inr True"
    and "get_member a key = Inr av" and "get_member b key = Inr bv"
    and "typeof av \<noteq> typeof bv"
  shows "diff_key a b path key = Inr [TypeChanged (currentPath path key) av bv]
    \<and> (\<exists>ds. findFieldDifferences a b path = Inr ds
          \<and> TypeChanged (currentPath path key) av bv \<in> set ds)"
proof -
  have k: "diff_key a b path key = Inr [TypeChanged (currentPath path key) av bv]"
    using assms by (simp add: diff_key.simps)
  have obj: "is_object a" "is_object b"
    using assms(1,2) has_in_is_object by blast+
  have "key \<in> set (allKeys a b)"
    using assms by (rule has_in_allKeys)
  from diff_key_in_output [OF obj this k] k show ?thesis by auto
qed

text \<open>
  Claim C5, as amended. When a key of both objects holds arrays of different lengths, the
  differences emitted for that key are one \<open>array_length_changed\<close> at the path of the key,
  carrying both lengths, followed by the differences of the overlapping index range, none of
  which is at the path of the key; the output of \<open>findFieldDifferences\<close> contains the
  \<open>array_length_changed\<close>.
\<close>

theorem array_length_changed_at_key:
  assumes "get_member baseline key = Inr (JArr xs)"
    and "get_member current key = Inr (JArr ys)"
    and "length xs \<noteq> length ys"
  shows "\<exists>items. for_each (\<lambda>i. diff_item (xs ! i) (ys ! i) (itemPath (currentPath path key) i))
                   [0..<min (length xs) (length ys)] = Inr items
    \<and> diff_key baseline current path key
        = Inr (ArrayLengthChanged (currentPath path key) (length xs) (length ys) # items)
    \<and> (\<forall>d\<in>set items. diff_path d \<noteq> currentPath path key)
    \<and> (\<exists>ds. findFieldDifferences baseline current path = Inr ds
          \<and> ArrayLengthChanged (currentPath path key) (length xs) (length ys) \<in> set ds)"
proof -
  let ?cp = "currentPath path key"
  let ?loop = "for_each (\<lambda>i. diff_item (xs ! i) (ys ! i) (itemPath ?cp i))
                 [0..<min (length xs) (length ys)]"
  have b: "has_in key baseline = Inr True" "key \<in> set (own_keys baseline)"
    using get_member_present [OF assms(1)] by auto
  have c: "has_in key current = Inr True"
    using get_member_present [OF assms(2)] by auto
  have obj: "is_object baseline" "is_object current"
    using b(1) c has_in_is_object by blast+
  obtain items where items: "?loop = Inr items"
    using for_each_total [of "[0..<min (length xs) (length ys)]"
        "\<lambda>i. diff_item (xs ! i) (ys ! i) (itemPath ?cp i)"] differ_total(3)
    by blast
  have k: "diff_key baseline current path key
             = Inr (ArrayLengthChanged ?cp (length xs) (length ys) # items)"
    using b(1) c assms items by (simp add: diff_key.simps)
  have paths: "\<forall>d\<in>set items. diff_path d \<noteq> ?cp"
  proof
    fix d assume "d \<in> set items"
    with items obtain i ds' where
      "diff_item (xs ! i) (ys ! i) (itemPath ?cp i) = Inr ds'" "d \<in> set ds'"
      by (auto dest!: for_each_member)
    then obtain s where "diff_path d = itemPath ?cp i @ s"
      using differ_paths(3) by blast
    then show "diff_path d \<noteq> ?cp"
      by (simp add: itemPath_def)
  qed
  have "key \<in> set (allKeys baseline current)"
    using b(2) obj by (simp add: set_allKeys)
  from diff_key_in_output [OF obj this k] items k paths show ?thesis by auto
qed

text \<open>
  Claim C2 as stated fails: \<^verbatim>\<open>{a: null}\<close> against \<^verbatim>\<open>{a: {b: 1}}\<close> gives a \<open>value_changed\<close>
  at \<^verbatim>\<open>a\<close>, in both directions.
\<close>

theorem null_against_object_counterexample:
  "findFieldDifferences (JObj [(''a'', JNull)]) (JObj [(''a'', JObj [(''b'', JNum 1)])]) []
     = Inr [ValueChanged ''a'' JNull (JObj [(''b'', JNum 1)])]
   \<and> findFieldDifferences (JObj [(''a'', JObj [(''b'', JNum 1)])]) (JObj [(''a'', JNull)]) []
     = Inr [ValueChanged ''a'' (JObj [(''b'', JNum 1)]) JNull]"
  by code_simp

theorem null_against_object_value_changed_witness:
  "get_member (JObj [(''a'', JNull)]) ''a'' = Inr JNull
   \<and> get_member (JObj [(''a'', JObj [(''b'', JNum 1)])]) ''a'' = Inr (JObj [(''b'', JNum 1)])
   \<and> is_object (JObj [(''b'', JNum 1)])
   \<and> diff_key (JObj [(''a'', JNull)]) (JObj [(''a'', JObj [(''b'', JNum 1)])]) [] ''a''
       = Inr [ValueChanged ''a'' JNull (JObj [(''b'', JNum 1)])]"
  using null_against_object_value_changed
    [of "JObj [(''a'', JNull)]" "''a''" "JObj [(''a'', JObj [(''b'', JNum 1)])]"
        "JObj [(''b'', JNum 1)]" "[]"]
  by (simp add: currentPath_def)

text \<open>
  Claim C3 as stated fails: on two roots of different types the differ raises a TypeError
  (the \<^verbatim>\<open>in\<close> operator on a primitive) or returns no difference at all.
\<close>

theorem root_type_mismatch_counterexample:
  "findFieldDifferences (JStr ''a'') (JNum 1) [] = Inl TypeError
   \<and> findFieldDifferences (JNum 5) (JObj [(''a'', JNum 1)]) [] = Inl TypeError
   \<and> findFieldDifferences (JNum 5) (JBool True) [] = Inr []"
  by code_simp

theorem type_mismatch_at_key_witness:
  "has_in ''a'' (JObj [(''a'', JStr ''x'')]) = Inr True
   \<and> has_in ''a'' (JObj [(''a'', JNum 1)]) = Inr True
   \<and> get_member (JObj [(''a'', JStr ''x'')]) ''a'' = Inr (JStr ''x'')
   \<and> get_member (JObj [(''a'', JNum 1)]) ''a'' = Inr (JNum 1)
   \<and> typeof (JStr ''x'') \<noteq> typeof (JNum 1)
   \<and> diff_key (JObj [(''a'', JStr ''x'')]) (JObj [(''a'', JNum 1)]) [] ''a''
       = Inr [TypeChanged ''a'' (JStr ''x'') (JNum 1)]"
  using type_mismatch_at_key
    [of "''a''" "JObj [(''a'', JStr ''x'')]" "JObj [(''a'', JNum 1)]" "JStr ''x''" "JNum 1" "[]"]
  by (simp add: currentPath_def)

text \<open>
  Claim C5 as stated fails for two arrays that are the arguments of the differ or the elements
  of an enclosing array: they are compared as objects keyed by index, so \<^verbatim>\<open>[1,2,3]\<close> against
  \<^verbatim>\<open>[1,2]\<close> gives a \<open>removed\<close> at index 2 and no \<open>array_length_changed\<close>.
\<close>

theorem array_length_counterexample:
  "findFieldDifferences (JArr [JNum 1, JNum 2, JNum 3]) (JArr [JNum 1, JNum 2]) []
     = Inr [Removed ''2'' (JNum 3)]
   \<and> findFieldDifferences (JObj [(''a'', JArr [JArr [JNum 1, JNum 2, JNum 3]])])
        (JObj [(''a'', JArr [JArr [JNum 1, JNum 2]])]) []
     = Inr [Removed ''a[0].2'' (JNum 3)]"
  by code_simp

theorem array_length_changed_at_key_witness:
  "get_member (JObj [(''a'', JArr [JNum 1, JNum 2, JNum 3])]) ''a'' = Inr (JArr [JNum 1, JNum 2, JNum 3])
   \<and> get_member (JObj [(''a'', JArr [JNum 1, JNum 2])]) ''a'' = Inr (JArr [JNum 1, JNum 2])
   \<and> length [JNum 1, JNum 2, JNum 3] \<noteq> length [JNum 1, JNum 2]
   \<and> diff_key (JObj [(''a'', JArr [JNum 1, JNum 2, JNum 3])]) (JObj [(''a'', JArr [JNum 1, JNum 2])])
        [] ''a''
       = Inr [ArrayLengthChanged ''a'' 3 2]"
proof -
  have loop: "for_each (\<lambda>i. diff_item ([JNum 1, JNum 2, JNum 3] ! i) ([JNum 1, JNum 2] ! i)
                     (itemPath ''a'' i)) [0..<2] = Inr []"
    by code_simp
  show ?thesis
    using array_length_changed_at_key
      [of "JObj [(''a'', JArr [JNum 1, JNum 2, JNum 3])]" "''a''" "[JNum 1, JNum 2, JNum 3]"
          "JObj [(''a'', JArr [JNum 1, JNum 2])]" "[JNum 1, JNum 2]" "[]"]
      loop
    by (auto simp: currentPath_def eval_nat_numeral)
qed

section \<open>Properties of the baseline store\<close>


lemma resolve_Some:
  "resolve fs p = Some n \<longleftrightarrow> (\<forall>i<length p. is_dir (fs (take i p))) \<and> fs p = Some n"
  by (auto simp: resolve_def list_all_iff)

lemma prefixes_are_dirs:
  assumes "resolve fs (butlast p) = Some (Dir w)" "i < length p"
  shows "is_dir (fs (take i p))"
proof (cases "i < length p - 1")
  case True
  then have "take i p = take i (butlast p)"
    by (simp add: take_butlast)
  with assms True show ?thesis
    by (simp add: resolve_Some)
next
  case False
  with assms(2) have "i = length p - 1" by simp
  then have "take i p = butlast p"
    by (simp add: butlast_conv_take)
  with assms show ?thesis
    by (simp add: resolve_Some)
qed

lemma resolve_parent:
  assumes "resolve fs (butlast p) = Some (Dir w)"
  shows "resolve fs p = fs p"
  using prefixes_are_dirs [OF assms] by (simp add: resolve_def list_all_iff)

lemma resolve_update:
  assumes "resolve fs (butlast p) = Some (Dir w)"
  shows "resolve (fs(p \<mapsto> n)) p = Some n"
proof -
  have "is_dir ((fs(p \<mapsto> n)) (take i p))" if "i < length p" for i
  proof -
    from that have "length (take i p) \<noteq> length p" by simp
    then have "take i p \<noteq> p" by metis
    then show ?thesis
      using prefixes_are_dirs [OF assms that] by simp
  qed
  then show ?thesis by (simp add: resolve_def list_all_iff)
qed

lemma writeFileSync_unfold:
  "writeFileSync fs p data =
     (case data of
        None \<Rightarrow> Inl TypeError
      | Some doc \<Rightarrow>
          (case resolve fs (butlast p) of
             None \<Rightarrow> Inl (IOError ENOENT)
           | Some (File w t) \<Rightarrow> Inl (IOError ENOTDIR)
           | Some (Dir w) \<Rightarrow>
               (case fs p of
                  Some (Dir w') \<Rightarrow> Inl (IOError EISDIR)
                | Some (File fw t) \<Rightarrow>
                    if fw then Inr (fs(p \<mapsto> File fw (JsonText doc))) else Inl (IOError EACCES)
                | None \<Rightarrow>
                    if w then Inr (fs(p \<mapsto> File True (JsonText doc))) else Inl (IOError EACCES))))"
  by (auto simp: writeFileSync_def openSync_w_def writeSync_all_def
           split: option.splits node.splits)

lemma write_then_read:
  assumes "writeFileSync fs p (Some doc) = Inr fs'"
  shows "readFileSync fs' p = Inr (JsonText doc)"
proof -
  from assms obtain w where w: "resolve fs (butlast p) = Some (Dir w)"
    by (auto simp: writeFileSync_unfold split: option.splits node.splits)
  from assms w obtain fw where "fs' = fs(p \<mapsto> File fw (JsonText doc))"
    by (auto simp: writeFileSync_unfold split: option.splits node.splits if_splits)
  then show ?thesis
    using resolve_update [OF w] by (simp add: readFileSync_def)
qed

lemma write_new_file:
  assumes "\<not> existsSync fs p" "resolve fs (butlast p) = Some (Dir True)"
  shows "writeFileSync fs p (Some doc) = Inr (fs(p \<mapsto> File True (JsonText doc)))"
  using assms resolve_parent [OF assms(2)]
  by (simp add: writeFileSync_unfold existsSync_def)

lemma write_succeeds:
  assumes "resolve fs (butlast p) = Some (Dir w)"
    "(fs p = None \<and> w) \<or> (\<exists>t. fs p = Some (File True t))"
  shows "\<exists>fs'. writeFileSync fs p (Some doc) = Inr fs'"
  using assms by (auto simp: writeFileSync_unfold)

lemma json_compatible_defined: "json_compatible v \<Longrightarrow> v \<noteq> JUndefined"
  by auto

lemma json_value_id: "json_compatible v \<Longrightarrow> json_value v = v"
proof (induction v)
  case (JArr xs)
  then have "map (\<lambda>x. if x = JUndefined then JNull else json_value x) xs = xs"
    by (induction xs) (auto dest: json_compatible_defined)
  then show ?case by simp
next
  case (JObj kvs)
  then have "concat (map (\<lambda>kv. if snd kv = JUndefined then []
                               else [(fst kv, json_value (snd kv))]) kvs) = kvs"
  proof (induction kvs)
    case Nil
    show ?case by simp
  next
    case (Cons kv kvs)
    obtain k v where kv: "kv = (k, v)" by (cases kv)
    from Cons.prems(2) kv have c: "json_compatible v" by simp
    with Cons.prems(1) [of kv v] kv have "json_value v = v" by simp
    moreover from c have "v \<noteq> JUndefined" by auto
    moreover have "concat (map (\<lambda>kv. if snd kv = JUndefined then []
                               else [(fst kv, json_value (snd kv))]) kvs) = kvs"
      using Cons by auto
    ultimately show ?case using kv by simp
  qed
  then show ?case by simp
qed simp_all

lemma first_baseline_defined:
  assumes "v \<noteq> JNull" "v \<noteq> JUndefined"
  shows "\<exists>d. first_baseline v t = Inr d"
  using assms by (cases v) (auto simp: first_baseline_def)

lemma first_baseline_payload:
  assumes "first_baseline v t = Inr d"
  shows "get_member (json_value d) (if t = ''json-ld'' then ''jsonLdData'' else ''metaTags'')
           = Inr (json_value v)"
proof -
  from assms have "v \<noteq> JNull" "v \<noteq> JUndefined"
    by (auto simp: first_baseline_def split: if_splits)
  with assms show ?thesis
    by (cases v) (auto simp: first_baseline_def split: if_splits sum.splits)
qed

text \<open>
  Claim C4, as amended. For every extracted value other than \<^verbatim>\<open>null\<close>, every page name and
  every kind: when no baseline file exists and the directory of the baseline file exists and
  is writable, \<open>compareWithBaseline\<close> returns normally, the result has \<open>matches\<close> true and
  three empty buckets, and the baseline file then holds a document whose payload is the
  extracted value.
\<close>

theorem first_run_creates_baseline:
  assumes "\<not> existsSync fs (baselineFile baselinePath pageName)"
    and "resolve fs (butlast (baselineFile baselinePath pageName)) = Some (Dir True)"
    and "json_compatible extractedData"
    and "extractedData \<noteq> JNull"
  shows "\<exists>fs' r doc.
      compareWithBaseline fs extractedData pageName baselinePath baselineType = Inr (fs', r)
    \<and> r = (if baselineType = ''json-ld'' then JsonLdResult True [] [] []
            else MetaTagsResult True [] [] [])
    \<and> matches r \<and> buckets_empty r
    \<and> readFileSync fs' (baselineFile baselinePath pageName) = Inr (JsonText doc)
    \<and> get_member doc (if baselineType = ''json-ld'' then ''jsonLdData'' else ''metaTags'')
        = Inr extractedData"
proof -
  let ?file = "baselineFile baselinePath pageName"
  from assms(3) have def: "extractedData \<noteq> JUndefined" by auto
  obtain d where d: "first_baseline extractedData baselineType = Inr d"
    using first_baseline_defined [OF assms(4) def] by blast
  then have nd: "d \<noteq> JUndefined"
    by (auto simp: first_baseline_def split: if_splits sum.splits)
  let ?fs' = "fs(?file \<mapsto> File True (JsonText (json_value d)))"
  have w: "writeFileSync fs ?file (JSON_stringify d) = Inr ?fs'"
    using write_new_file [OF assms(1,2)] nd by (simp add: JSON_stringify_def)
  have r: "readFileSync ?fs' ?file = Inr (JsonText (json_value d))"
    using write_then_read w nd by (simp add: JSON_stringify_def)
  have p: "get_member (json_value d)
             (if baselineType = ''json-ld'' then ''jsonLdData'' else ''metaTags'')
           = Inr extractedData"
    using first_baseline_payload [OF d] json_value_id [OF assms(3)] by simp
  show ?thesis
    using assms(1) d w r p by (simp add: compareWithBaseline_def)
qed

lemma empty_fs_no_baseline:
  "\<not> existsSync empty_fs (baselineFile [''baselines''] ''home'')"
  by (simp add: example_file existsSync_def resolve_def empty_fs_def)

lemma empty_fs_directory:
  "resolve empty_fs (butlast (baselineFile [''baselines''] ''home'')) = Some (Dir True)"
  by (simp add: example_file resolve_def empty_fs_def)

text \<open>
  Claim C4 as stated fails: with no baseline file, the extracted value \<^verbatim>\<open>null\<close> makes the
  first run raise a TypeError (reading \<^verbatim>\<open>length\<close>, or \<^verbatim>\<open>Object.keys\<close>), and a missing
  baseline directory makes the write raise.
\<close>

theorem first_run_counterexample:
  "\<not> existsSync empty_fs (baselineFile [''baselines''] ''home'')
   \<and> compareWithBaseline empty_fs JNull ''home'' [''baselines''] ''json-ld'' = Inl TypeError
   \<and> compareWithBaseline empty_fs JNull ''home'' [''baselines''] ''meta-tags'' = Inl TypeError
   \<and> \<not> existsSync empty_fs (baselineFile [''missing''] ''home'')
   \<and> compareWithBaseline empty_fs (JArr []) ''home'' [''missing''] ''json-ld''
       = Inl (IOError ENOENT)"
  by (simp add: compareWithBaseline_def first_baseline_def baselineFile_def path_join_def
      existsSync_def resolve_def empty_fs_def writeFileSync_unfold JSON_stringify_def)

theorem first_run_creates_baseline_witness:
  "\<not> existsSync empty_fs (baselineFile [''baselines''] ''home'')
   \<and> resolve empty_fs (butlast (baselineFile [''baselines''] ''home'')) = Some (Dir True)
   \<and> json_compatible (example_tags ''A'')
   \<and> example_tags ''A'' \<noteq> JNull
   \<and> (\<exists>fs' r doc.
        compareWithBaseline empty_fs (example_tags ''A'') ''home'' [''baselines''] ''meta-tags''
          = Inr (fs', r)
      \<and> r = (if ''meta-tags'' = ''json-ld'' then JsonLdResult True [] [] []
              else MetaTagsResult True [] [] [])
      \<and> matches r \<and> buckets_empty r
      \<and> readFileSync fs' (baselineFile [''baselines''] ''home'') = Inr (JsonText doc)
      \<and> get_member doc (if ''meta-tags'' = ''json-ld'' then ''jsonLdData'' else ''metaTags'')
          = Inr (example_tags ''A''))"
proof -
  have c: "json_compatible (example_tags ''A'')" and n: "example_tags ''A'' \<noteq> JNull"
    by (simp_all add: example_tags_def)
  from first_run_creates_baseline [OF empty_fs_no_baseline empty_fs_directory c n]
  show ?thesis
    using empty_fs_no_baseline empty_fs_directory c n by blast
qed

lemma write_not_unsupported:
  "writeFileSync fs p d \<noteq> Inl (UnsupportedBaselineType t)"
  by (auto simp: writeFileSync_unfold split: option.splits node.splits)

lemma first_baseline_not_unsupported:
  "first_baseline v ty \<noteq> Inl (UnsupportedBaselineType t)"
  by (cases v) (auto simp: first_baseline_def)

lemma first_baseline_other:
  assumes "ty \<noteq> ''json-ld''" "first_baseline v ty = Inr d"
  shows "json_value d = JObj [(''metaTags'', json_value v),
                              (''metaTagCount'', JNum (of_nat (length (own_keys v))))]"
    and "d \<noteq> JUndefined"
  using assms by (cases v; auto simp: first_baseline_def)+

text \<open>
  Claim C10, as amended. For a baseline type other than \<^verbatim>\<open>json-ld\<close> and \<^verbatim>\<open>meta-tags\<close>:
  \<open>compareWithBaseline\<close> raises the unsupported-type error only when the baseline file exists,
  and does raise it once that file has been read and parsed; when no baseline file exists,
  the extracted value is not \<^verbatim>\<open>null\<close> and the directory of the baseline file exists and is
  writable, the call returns normally, has written the meta-tags-shaped document holding the
  extracted value, and carries the meta-tags-shaped result with \<open>matches\<close> true; and every
  normal return without a baseline file has done so.
\<close>

theorem unsupported_type_needs_baseline:
  assumes "baselineType \<noteq> ''json-ld''" and "baselineType \<noteq> ''meta-tags''"
  shows "(\<forall>t. compareWithBaseline fs extractedData pageName baselinePath baselineType
              = Inl (UnsupportedBaselineType t)
            \<longrightarrow> existsSync fs (baselineFile baselinePath pageName))
    \<and> (\<forall>contents baselineData.
          existsSync fs (baselineFile baselinePath pageName)
          \<and> readFileSync fs (baselineFile baselinePath pageName) = Inr contents
          \<and> JSON_parse contents = Inr baselineData
          \<longrightarrow> compareWithBaseline fs extractedData pageName baselinePath baselineType
              = Inl (UnsupportedBaselineType baselineType))
    \<and> (\<forall>fs' r.
          \<not> existsSync fs (baselineFile baselinePath pageName)
          \<and> compareWithBaseline fs extractedData pageName baselinePath baselineType = Inr (fs', r)
          \<longrightarrow> r = MetaTagsResult True [] [] []
            \<and> readFileSync fs' (baselineFile baselinePath pageName)
                = Inr (JsonText (JObj [(''metaTags'', json_value extractedData),
                     (''metaTagCount'', JNum (of_nat (length (own_keys extractedData))))])))
    \<and> (\<not> existsSync fs (baselineFile baselinePath pageName)
        \<and> resolve fs (butlast (baselineFile baselinePath pageName)) = Some (Dir True)
        \<and> extractedData \<noteq> JNull \<and> extractedData \<noteq> JUndefined
        \<longrightarrow> (\<exists>fs'. compareWithBaseline fs extractedData pageName baselinePath baselineType
                    = Inr (fs', MetaTagsResult True [] [] [])
                \<and> readFileSync fs' (baselineFile baselinePath pageName)
                    = Inr (JsonText (JObj [(''metaTags'', json_value extractedData),
                         (''metaTagCount'', JNum (of_nat (length (own_keys extractedData))))]))))"
proof -
  let ?file = "baselineFile baselinePath pageName"
  let ?call = "compareWithBaseline fs extractedData pageName baselinePath baselineType"
  let ?doc = "JObj [(''metaTags'', json_value extractedData),
                    (''metaTagCount'', JNum (of_nat (length (own_keys extractedData))))]"
  have p1: "existsSync fs ?file" if "?call = Inl (UnsupportedBaselineType t)" for t
    using that write_not_unsupported first_baseline_not_unsupported
    by (auto simp: compareWithBaseline_def split: if_splits sum.splits)
  have p2: "?call = Inl (UnsupportedBaselineType baselineType)"
    if "existsSync fs ?file \<and> readFileSync fs ?file = Inr contents
        \<and> JSON_parse contents = Inr baselineData" for contents baselineData
    using that assms by (simp add: compareWithBaseline_def compare_payload_def)
  have p3: "r = MetaTagsResult True [] [] [] \<and> readFileSync fs' ?file = Inr (JsonText ?doc)"
    if a: "\<not> existsSync fs ?file \<and> ?call = Inr (fs', r)" for fs' r
  proof -
    from a obtain d where d: "first_baseline extractedData baselineType = Inr d"
      and w: "writeFileSync fs ?file (JSON_stringify d) = Inr fs'"
      and r: "r = MetaTagsResult True [] [] []"
      using assms(1) by (auto simp: compareWithBaseline_def split: sum.splits)
    from first_baseline_other [OF assms(1) d] w
    have "readFileSync fs' ?file = Inr (JsonText ?doc)"
      using write_then_read [of fs ?file "json_value d" fs']
      by (simp add: JSON_stringify_def)
    with r show ?thesis by simp
  qed
  have p4: "\<exists>fs'. ?call = Inr (fs', MetaTagsResult True [] [] [])
                \<and> readFileSync fs' ?file = Inr (JsonText ?doc)"
    if a: "\<not> existsSync fs ?file \<and> resolve fs (butlast ?file) = Some (Dir True)
        \<and> extractedData \<noteq> JNull \<and> extractedData \<noteq> JUndefined"
  proof -
    from a obtain d where d: "first_baseline extractedData baselineType = Inr d"
      using first_baseline_defined by blast
    from first_baseline_other(2) [OF assms(1) d] a
    have "writeFileSync fs ?file (JSON_stringify d)
            = Inr (fs(?file \<mapsto> File True (JsonText (json_value d))))"
      using write_new_file [of fs ?file "json_value d"]
      by (simp add: JSON_stringify_def)
    with a d assms(1) obtain fs' where "?call = Inr (fs', MetaTagsResult True [] [] [])"
      by (simp add: compareWithBaseline_def)
    with a p3 [of fs' "MetaTagsResult True [] [] []"] show ?thesis by blast
  qed
  show ?thesis
    using p1 p2 p3 p4 by blast
qed

text \<open>
  Claim C10 as stated fails: with no baseline file and an unsupported type, the call raises
  a TypeError on the value \<^verbatim>\<open>null\<close>, and an I/O error when the baseline directory is missing
  or not writable.
\<close>

theorem unsupported_type_counterexample:
  "\<not> existsSync empty_fs (baselineFile [''baselines''] ''home'')
   \<and> compareWithBaseline empty_fs JNull ''home'' [''baselines''] ''rdfa'' = Inl TypeError
   \<and> \<not> existsSync empty_fs (baselineFile [''missing''] ''home'')
   \<and> compareWithBaseline empty_fs (JObj []) ''home'' [''missing''] ''rdfa''
       = Inl (IOError ENOENT)
   \<and> \<not> existsSync readonly_fs (baselineFile [''baselines''] ''home'')
   \<and> compareWithBaseline readonly_fs (JObj []) ''home'' [''baselines''] ''rdfa''
       = Inl (IOError EACCES)"
  by (simp add: compareWithBaseline_def first_baseline_def baselineFile_def path_join_def
      existsSync_def resolve_def empty_fs_def readonly_fs_def writeFileSync_unfold
      JSON_stringify_def)

lemma example_fs_baseline:
  "existsSync example_fs (baselineFile [''baselines''] ''home'')"
  "readFileSync example_fs (baselineFile [''baselines''] ''home'')
     = Inr (JsonText (JObj [(''metaTags'', example_tags ''A''), (''metaTagCount'', JNum 1)]))"
  by (simp_all add: example_file existsSync_def readFileSync_def resolve_def example_fs_def)

theorem unsupported_type_needs_baseline_witness:
  "''rdfa'' \<noteq> ''json-ld'' \<and> ''rdfa'' \<noteq> ''meta-tags''
   \<and> compareWithBaseline example_fs (example_tags ''B'') ''home'' [''baselines''] ''rdfa''
       = Inl (UnsupportedBaselineType ''rdfa'')
   \<and> (\<exists>fs'. compareWithBaseline empty_fs (example_tags ''B'') ''home'' [''baselines''] ''rdfa''
               = Inr (fs', MetaTagsResult True [] [] []))"
proof -
  have t: "''rdfa'' \<noteq> ''json-ld''" "''rdfa'' \<noteq> ''meta-tags''" by simp_all
  have v: "example_tags ''B'' \<noteq> JNull" "example_tags ''B'' \<noteq> JUndefined"
    by (simp_all add: example_tags_def)
  from unsupported_type_needs_baseline [OF t, of example_fs "example_tags ''B''" "''home''"
      "[''baselines'']"] example_fs_baseline
  have "compareWithBaseline example_fs (example_tags ''B'') ''home'' [''baselines''] ''rdfa''
       = Inl (UnsupportedBaselineType ''rdfa'')"
    by simp
  moreover
  from unsupported_type_needs_baseline [OF t, of empty_fs "example_tags ''B''" "''home''"
      "[''baselines'']"] empty_fs_no_baseline empty_fs_directory v
  have "\<exists>fs'. compareWithBaseline empty_fs (example_tags ''B'') ''home'' [''baselines''] ''rdfa''
               = Inr (fs', MetaTagsResult True [] [] [])"
    by blast
  ultimately show ?thesis using t by blast
qed

text \<open>The comparison with an existing baseline compares against the payload that is loaded.\<close>

lemma compare_payload_loads:
  "compare_payload extractedData baselineData baselineType =
     (case baseline_payload baselineData baselineType of Inl e \<Rightarrow> Inl e
      | Inr b \<Rightarrow> if baselineType = ''json-ld'' then compareJsonLdWithBaseline extractedData b
                 else compareMetaTagsWithBaseline extractedData b)"
  by (auto simp: compare_payload_def baseline_payload_def split: sum.splits)

lemma updated_baseline_defined:
  assumes "v \<noteq> JNull" "v \<noteq> JUndefined"
  shows "\<exists>d. updated_baseline now v t = Inr d \<and> d \<noteq> JUndefined"
  using assms by (cases v) (auto simp: updated_baseline_def)

lemma updated_baseline_document:
  assumes "json_compatible v" "t = ''json-ld'' \<or> t = ''meta-tags''"
    "updated_baseline now v t = Inr d"
  shows "d \<noteq> JUndefined"
    and "\<exists>meta. json_value d
            = JObj ((if t = ''json-ld'' then ''jsonLdData'' else ''metaTags'', v) # meta)
          \<and> set (map fst meta) \<subseteq> {''count'', ''metaTagCount'', ''lastUpdated''}
          \<and> (''lastUpdated'', JStr now) \<in> set meta"
proof -
  from assms(3) show "d \<noteq> JUndefined"
    by (auto simp: updated_baseline_def split: if_splits sum.splits)
  have v: "json_value v = v" "v \<noteq> JUndefined"
    using assms(1) json_value_id by auto
  show "\<exists>meta. json_value d
            = JObj ((if t = ''json-ld'' then ''jsonLdData'' else ''metaTags'', v) # meta)
          \<and> set (map fst meta) \<subseteq> {''count'', ''metaTagCount'', ''lastUpdated''}
          \<and> (''lastUpdated'', JStr now) \<in> set meta"
  proof (cases "t = ''json-ld''")
    case True
    with assms(3) obtain n where n: "get_member v ''length'' = Inr n"
      and d: "d = JObj [(''jsonLdData'', v), (''count'', n), (''lastUpdated'', JStr now)]"
      by (auto simp: updated_baseline_def split: sum.splits)
    show ?thesis using True d v by auto
  next
    case False
    with assms(3) have "\<exists>n. d = JObj [(''metaTags'', v), (''metaTagCount'', JNum n),
                    (''lastUpdated'', JStr now)]"
      by (auto simp: updated_baseline_def split: sum.splits)
    then show ?thesis using False v by auto
  qed
qed

text \<open>
  Claim C7, as amended. For every JSON value \<open>v\<close>, every page name and the kinds
  \<^verbatim>\<open>json-ld\<close> and \<^verbatim>\<open>meta-tags\<close>: whenever \<open>updateBaseline\<close> returns, loading the baseline
  of the same page and kind yields \<open>v\<close>, and the stored document is \<open>v\<close> under the key of its
  kind followed only by the count metadata and \<open>lastUpdated\<close>; \<open>updateBaseline\<close> does return
  when \<open>v\<close> is not \<^verbatim>\<open>null\<close> and the file can be written.
\<close>

theorem baseline_round_trip:
  assumes "json_compatible v"
    and "baselineType = ''json-ld'' \<or> baselineType = ''meta-tags''"
  shows "(\<forall>fs'. updateBaseline fs now v pageName baselinePath baselineType = Inr fs'
            \<longrightarrow> loadBaseline fs' pageName baselinePath baselineType = Inr v
              \<and> (\<exists>meta. readFileSync fs' (baselineFile baselinePath pageName)
                    = Inr (JsonText (JObj ((if baselineType = ''json-ld'' then ''jsonLdData''
                                             else ''metaTags'', v) # meta)))
                  \<and> set (map fst meta) \<subseteq> {''count'', ''metaTagCount'', ''lastUpdated''}
                  \<and> (''lastUpdated'', JStr now) \<in> set meta))
    \<and> (v \<noteq> JNull
        \<and> resolve fs (butlast (baselineFile baselinePath pageName)) = Some (Dir w)
        \<and> ((fs (baselineFile baselinePath pageName) = None \<and> w)
            \<or> (\<exists>t. fs (baselineFile baselinePath pageName) = Some (File True t)))
        \<longrightarrow> (\<exists>fs'. updateBaseline fs now v pageName baselinePath baselineType = Inr fs'))"
proof -
  let ?file = "baselineFile baselinePath pageName"
  let ?key = "if baselineType = ''json-ld'' then ''jsonLdData'' else ''metaTags''"
  have p1: "loadBaseline fs' pageName baselinePath baselineType = Inr v
      \<and> (\<exists>meta. readFileSync fs' ?file = Inr (JsonText (JObj ((?key, v) # meta)))
            \<and> set (map fst meta) \<subseteq> {''count'', ''metaTagCount'', ''lastUpdated''}
            \<and> (''lastUpdated'', JStr now) \<in> set meta)"
    if u: "updateBaseline fs now v pageName baselinePath baselineType = Inr fs'" for fs'
  proof -
    from u obtain d where d: "updated_baseline now v baselineType = Inr d"
      and w: "writeFileSync fs ?file (JSON_stringify d) = Inr fs'"
      by (auto simp: updateBaseline_def split: sum.splits)
    from updated_baseline_document [OF assms d] obtain meta where
      nd: "d \<noteq> JUndefined" and doc: "json_value d = JObj ((?key, v) # meta)"
      and meta: "set (map fst meta) \<subseteq> {''count'', ''metaTagCount'', ''lastUpdated''}"
        "(''lastUpdated'', JStr now) \<in> set meta"
      by blast
    from w nd have r: "readFileSync fs' ?file = Inr (JsonText (json_value d))"
      using write_then_read [of fs ?file "json_value d" fs'] by (simp add: JSON_stringify_def)
    have "loadBaseline fs' pageName baselinePath baselineType = Inr v"
      using r doc assms(2) by (auto simp: loadBaseline_def baseline_payload_def)
    with r doc meta show ?thesis by auto
  qed
  have p2: "\<exists>fs'. updateBaseline fs now v pageName baselinePath baselineType = Inr fs'"
    if a: "v \<noteq> JNull \<and> resolve fs (butlast ?file) = Some (Dir w)
        \<and> ((fs ?file = None \<and> w) \<or> (\<exists>t. fs ?file = Some (File True t)))"
  proof -
    from assms(1) have "v \<noteq> JUndefined" by auto
    with a obtain d where d: "updated_baseline now v baselineType = Inr d"
      "d \<noteq> JUndefined"
      using updated_baseline_defined [of v now baselineType] by blast
    from a obtain fs' where "writeFileSync fs ?file (Some (json_value d)) = Inr fs'"
      using write_succeeds [of fs ?file w "json_value d"] by blast
    with d show ?thesis
      by (auto simp: updateBaseline_def JSON_stringify_def)
  qed
  show ?thesis using p1 p2 by blast
qed

theorem baseline_round_trip_witness:
  "json_compatible (example_tags ''A'')
   \<and> (''meta-tags'' = ''json-ld'' \<or> ''meta-tags'' = ''meta-tags'')
   \<and> (\<exists>fs'. updateBaseline empty_fs ''2024-01-01T00:00:00.000Z'' (example_tags ''A'') ''home''
               [''baselines''] ''meta-tags'' = Inr fs'
            \<and> loadBaseline fs' ''home'' [''baselines''] ''meta-tags'' = Inr (example_tags ''A''))"
proof -
  have c: "json_compatible (example_tags ''A'')" and n: "example_tags ''A'' \<noteq> JNull"
    by (simp_all add: example_tags_def)
  have k: "''meta-tags'' = ''json-ld'' \<or> ''meta-tags'' = ''meta-tags''" by simp
  have f: "empty_fs (baselineFile [''baselines''] ''home'') = None"
    by (simp add: example_file empty_fs_def)
  from baseline_round_trip [OF c k, of empty_fs "''2024-01-01T00:00:00.000Z''" "''home''"
      "[''baselines'']" True] n f empty_fs_directory
  have "\<exists>fs'. updateBaseline empty_fs ''2024-01-01T00:00:00.000Z'' (example_tags ''A'') ''home''
               [''baselines''] ''meta-tags'' = Inr fs'
            \<and> loadBaseline fs' ''home'' [''baselines''] ''meta-tags'' = Inr (example_tags ''A'')"
    by blast
  with c k show ?thesis by blast
qed

text \<open>
  Claim C7 as stated fails: saving \<^verbatim>\<open>null\<close> raises a TypeError and stores nothing, and a
  baseline saved under another kind cannot be loaded, the kind being unsupported.
\<close>

theorem baseline_round_trip_counterexample:
  "updateBaseline empty_fs ''2024-01-01T00:00:00.000Z'' JNull ''home'' [''baselines''] ''json-ld''
     = Inl TypeError
   \<and> updateBaseline empty_fs ''2024-01-01T00:00:00.000Z'' JNull ''home'' [''baselines''] ''meta-tags''
     = Inl TypeError
   \<and> updateBaseline empty_fs ''2024-01-01T00:00:00.000Z'' (JObj []) ''home'' [''baselines''] ''rdfa''
     = Inr (empty_fs([''baselines'', ''home-baseline.json''] \<mapsto>
              File True (JsonText (JObj [(''metaTags'', JObj []), (''metaTagCount'', JNum 0),
                                         (''lastUpdated'', JStr ''2024-01-01T00:00:00.000Z'')]))))
   \<and> loadBaseline
        (empty_fs([''baselines'', ''home-baseline.json''] \<mapsto>
              File True (JsonText (JObj [(''metaTags'', JObj []), (''metaTagCount'', JNum 0),
                                         (''lastUpdated'', JStr ''2024-01-01T00:00:00.000Z'')]))))
        ''home'' [''baselines''] ''rdfa''
     = Inl (UnsupportedBaselineType ''rdfa'')"
  by (simp add: updateBaseline_def updated_baseline_def example_file writeFileSync_unfold
      JSON_stringify_def resolve_def empty_fs_def loadBaseline_def readFileSync_def
      baseline_payload_def)

section \<open>The baseline directory\<close>


lemma mkdir_from_dirs:
  assumes "mkdir_from fs pre cs = Inr fs'" "\<forall>i\<le>length pre. is_dir (fs (take i pre))"
  shows "\<forall>i\<le>length (pre @ cs). is_dir (fs' (take i (pre @ cs)))"
  using assms
proof (induction cs arbitrary: fs pre)
  case Nil
  then show ?case by simp
next
  case (Cons c cs)
  from Cons.prems(1) obtain w where w: "fs pre = Some (Dir w)"
    by (auto split: option.splits node.splits)
  show ?case
  proof (cases "fs (pre @ [c])")
    case None
    with Cons.prems(1) w have rec: "mkdir_from (fs(pre @ [c] \<mapsto> Dir True)) (pre @ [c]) cs = Inr fs'"
      by (auto split: if_splits)
    have "\<forall>i\<le>length (pre @ [c]). is_dir ((fs(pre @ [c] \<mapsto> Dir True)) (take i (pre @ [c])))"
    proof (intro allI impI)
      fix i assume i: "i \<le> length (pre @ [c])"
      show "is_dir ((fs(pre @ [c] \<mapsto> Dir True)) (take i (pre @ [c])))"
      proof (cases "i \<le> length pre")
        case True
        then have "length (take i (pre @ [c])) \<noteq> length (pre @ [c])" by simp
        then have "take i (pre @ [c]) \<noteq> pre @ [c]" by metis
        with True Cons.prems(2) show ?thesis by simp
      next
        case False
        with i have "i = Suc (length pre)" by simp
        then show ?thesis by simp
      qed
    qed
    from Cons.IH [OF rec this] show ?thesis by simp
  next
    case (Some n)
    with Cons.prems(1) w obtain w' where n: "n = Dir w'"
      and rec: "mkdir_from fs (pre @ [c]) cs = Inr fs'"
      by (cases n) auto
    have "\<forall>i\<le>length (pre @ [c]). is_dir (fs (take i (pre @ [c])))"
    proof (intro allI impI)
      fix i assume i: "i \<le> length (pre @ [c])"
      show "is_dir (fs (take i (pre @ [c])))"
      proof (cases "i \<le> length pre")
        case True
        with Cons.prems(2) show ?thesis by simp
      next
        case False
        with i have "i = Suc (length pre)" by simp
        with Some n show ?thesis by simp
      qed
    qed
    from Cons.IH [OF rec this] show ?thesis by simp
  qed
qed

lemma mkdir_from_error: "mkdir_from fs pre cs = Inl e \<Longrightarrow> \<exists>n. e = IOError n"
  by (induction cs arbitrary: fs pre) (auto split: option.splits node.splits if_splits)

lemma mkdir_from_last:
  assumes "is_dir (fs pre)" "\<forall>i. 0 < i \<and> i \<le> length cs \<longrightarrow> is_dir (fs (pre @ take i cs))"
    "fs (pre @ cs) = Some (Dir w)" "fs (pre @ cs @ [c]) = None"
  shows "mkdir_from fs pre (cs @ [c])
           = (if w then Inr (fs(pre @ cs @ [c] \<mapsto> Dir True)) else Inl (IOError EACCES))"
  using assms
proof (induction cs arbitrary: pre)
  case Nil
  then show ?case by (simp add: fun_eq_iff)
next
  case (Cons x cs)
  from Cons.prems(1) obtain w0 where w: "fs pre = Some (Dir w0)"
    by (cases "fs pre" rule: is_dir.cases) auto
  from Cons.prems(2) [rule_format, of 1] obtain w' where x: "fs (pre @ [x]) = Some (Dir w')"
    by (cases "fs (pre @ [x])" rule: is_dir.cases) auto
  have "\<forall>i. 0 < i \<and> i \<le> length cs \<longrightarrow> is_dir (fs ((pre @ [x]) @ take i cs))"
  proof (intro allI impI)
    fix i assume "0 < i \<and> i \<le> length cs"
    with Cons.prems(2) [rule_format, of "Suc i"]
    show "is_dir (fs ((pre @ [x]) @ take i cs))" by simp
  qed
  from Cons.IH [of "pre @ [x]", OF _ this] x Cons.prems(3,4)
  have "mkdir_from fs (pre @ [x]) (cs @ [c])
          = (if w then Inr (fs(pre @ x # cs @ [c] \<mapsto> Dir True)) else Inl (IOError EACCES))"
    by (simp add: fun_upd_def)
  with w x show ?case by (simp add: fun_upd_def)
qed

lemma mkdir_from_blocked:
  assumes "mkdir_from fs pre cs = Inl e" "is_dir (fs pre)"
  shows "\<exists>i\<le>length cs. blocking (fs (pre @ take i cs))"
  using assms
proof (induction cs arbitrary: fs pre)
  case Nil
  then show ?case by simp
next
  case (Cons c cs)
  from Cons.prems(2) obtain w where w: "fs pre = Some (Dir w)"
    by (cases "fs pre" rule: is_dir.cases) auto
  show ?case
  proof (cases "fs (pre @ [c])")
    case None
    show ?thesis
    proof (cases w)
      case False
      with w have "blocking (fs (pre @ take 0 (c # cs)))" by simp
      then show ?thesis by blast
    next
      case True
      let ?fs = "fs(pre @ [c] \<mapsto> Dir True)"
      from Cons.prems(1) w None True have "mkdir_from ?fs (pre @ [c]) cs = Inl e"
        by simp
      from Cons.IH [OF this] obtain i where i: "i \<le> length cs"
        "blocking (?fs ((pre @ [c]) @ take i cs))"
        by auto
      have "(pre @ [c]) @ take i cs \<noteq> pre @ [c]"
        using i(2) by (cases "take i cs") auto
      with i(2) have "blocking (fs (pre @ take (Suc i) (c # cs)))" by simp
      with i(1) show ?thesis
        by (metis Suc_le_mono length_Cons)
    qed
  next
    case (Some n)
    show ?thesis
    proof (cases n)
      case (File fw t)
      with Some have "blocking (fs (pre @ take 1 (c # cs)))" by simp
      then show ?thesis
        by (metis One_nat_def Suc_le_mono length_Cons zero_le)
    next
      case (Dir w')
      with Cons.prems(1) w Some have "mkdir_from fs (pre @ [c]) cs = Inl e" by simp
      from Cons.IH [OF this] Some Dir obtain i where i: "i \<le> length cs"
        "blocking (fs ((pre @ [c]) @ take i cs))"
        by auto
      then have "blocking (fs (pre @ take (Suc i) (c # cs)))" by simp
      with i(1) show ?thesis
        by (metis Suc_le_mono length_Cons)
    qed
  qed
qed

lemma mkdir_from_file:
  assumes "is_dir (fs pre)" "0 < j" "j \<le> length cs" "is_file (fs (pre @ take j cs))"
  shows "\<exists>e. mkdir_from fs pre cs = Inl e"
  using assms
proof (induction cs arbitrary: fs pre j)
  case Nil
  then show ?case by simp
next
  case (Cons c cs)
  from Cons.prems(1) obtain w where w: "fs pre = Some (Dir w)"
    by (cases "fs pre" rule: is_dir.cases) auto
  from Cons.prems(2) obtain j' where j: "j = Suc j'" by (cases j) auto
  with Cons.prems have fl: "is_file (fs ((pre @ [c]) @ take j' cs))" "j' \<le> length cs"
    by simp_all
  show ?case
  proof (cases "fs (pre @ [c])")
    case None
    show ?thesis
    proof (cases w)
      case False
      with w None show ?thesis by simp
    next
      case True
      let ?fs = "fs(pre @ [c] \<mapsto> Dir True)"
      from fl(1) None have "0 < j'" by (cases j') auto
      then have "(pre @ [c]) @ take j' cs \<noteq> pre @ [c]"
        using fl(1) None by (cases "take j' cs") auto
      with fl(1) have "is_file (?fs ((pre @ [c]) @ take j' cs))" by simp
      from Cons.IH [of ?fs "pre @ [c]" j', OF _ \<open>0 < j'\<close> fl(2) this]
      have "\<exists>e. mkdir_from ?fs (pre @ [c]) cs = Inl e" by (simp add: fun_upd_def)
      with w None True show ?thesis by simp
    qed
  next
    case (Some n)
    show ?thesis
    proof (cases n)
      case (File fw t)
      with w Some show ?thesis by simp
    next
      case (Dir w')
      with fl(1) Some have "0 < j'" by (cases j') auto
      from Cons.IH [of fs "pre @ [c]" j', OF _ this fl(2) fl(1)] Some Dir
      have "\<exists>e. mkdir_from fs (pre @ [c]) cs = Inl e" by simp
      with w Some Dir show ?thesis by simp
    qed
  qed
qed

lemma ancestor_file_not_exists:
  assumes "i < length p" "is_file (fs (take i p))"
  shows "\<not> existsSync fs p"
proof -
  from assms(2) have "\<not> is_dir (fs (take i p))"
    by (cases "fs (take i p)" rule: is_file.cases) auto
  with assms(1) show ?thesis
    by (auto simp: existsSync_def resolve_def list_all_iff)
qed

lemma resolve_all_dirs:
  assumes "\<forall>i\<le>length p. is_dir (fs (take i p))"
  shows "is_dir (resolve fs p)" "existsSync fs p"
proof -
  from assms have "resolve fs p = fs p"
    by (simp add: resolve_def list_all_iff)
  moreover from assms have "is_dir (fs p)"
    by (auto dest!: spec [of _ "length p"])
  ultimately show "is_dir (resolve fs p)" by simp
  then show "existsSync fs p"
    by (cases "resolve fs p" rule: is_dir.cases) (auto simp: existsSync_def)
qed

text \<open>
  Claim C8, as amended. \<open>ensureBaselineDirectory\<close> is idempotent: on a path that exists it
  changes nothing and returns normally, and after any normal return the path exists and a
  second call changes nothing; a path that was missing is a directory afterwards. It raises
  only when the path does not exist and a component of the path is a file or a directory
  without write permission, and then with an I/O error; it does raise when a proper ancestor
  of the path is a file, and when the path is missing under a parent without write
  permission; under a writable parent the missing directory is created. A path that itself
  exists as a file or as a directory without write permission is left alone without an error.
\<close>

theorem ensure_directory_idempotent:
  assumes "is_dir (fs [])"
  shows "(existsSync fs p \<longrightarrow> ensureBaselineDirectory fs p = Inr fs)
    \<and> (\<forall>fs'. ensureBaselineDirectory fs p = Inr fs'
          \<longrightarrow> existsSync fs' p \<and> ensureBaselineDirectory fs' p = Inr fs'
            \<and> (\<not> existsSync fs p \<longrightarrow> is_dir (resolve fs' p)))
    \<and> (\<forall>e. ensureBaselineDirectory fs p = Inl e
          \<longrightarrow> \<not> existsSync fs p \<and> (\<exists>n. e = IOError n)
            \<and> (\<exists>i\<le>length p. blocking (fs (take i p))))
    \<and> ((\<exists>i<length p. is_file (fs (take i p)))
        \<longrightarrow> (\<exists>e. ensureBaselineDirectory fs p = Inl e))
    \<and> (\<not> existsSync fs p \<and> resolve fs (butlast p) = Some (Dir False)
        \<longrightarrow> ensureBaselineDirectory fs p = Inl (IOError EACCES))
    \<and> (\<not> existsSync fs p \<and> resolve fs (butlast p) = Some (Dir True)
        \<longrightarrow> ensureBaselineDirectory fs p = Inr (fs(p \<mapsto> Dir True)))"
proof -
  have p1: "existsSync fs p \<longrightarrow> ensureBaselineDirectory fs p = Inr fs"
    by (simp add: ensureBaselineDirectory_def)
  have p2: "existsSync fs' p \<and> ensureBaselineDirectory fs' p = Inr fs'
            \<and> (\<not> existsSync fs p \<longrightarrow> is_dir (resolve fs' p))"
    if e: "ensureBaselineDirectory fs p = Inr fs'" for fs'
  proof (cases "existsSync fs p")
    case True
    with e show ?thesis by (simp add: ensureBaselineDirectory_def)
  next
    case False
    with e have "mkdir_from fs [] p = Inr fs'"
      by (simp add: ensureBaselineDirectory_def mkdirSync_recursive_def)
    from mkdir_from_dirs [OF this] assms
    have "\<forall>i\<le>length p. is_dir (fs' (take i p))" by simp
    from resolve_all_dirs [OF this] show ?thesis
      by (simp add: ensureBaselineDirectory_def)
  qed
  have p3: "\<not> existsSync fs p \<and> (\<exists>n. e = IOError n)
            \<and> (\<exists>i\<le>length p. blocking (fs (take i p)))"
    if e: "ensureBaselineDirectory fs p = Inl e" for e
  proof -
    from e have n: "\<not> existsSync fs p" and m: "mkdir_from fs [] p = Inl e"
      by (auto simp: ensureBaselineDirectory_def mkdirSync_recursive_def split: if_splits)
    from mkdir_from_blocked [OF m] assms
    have "\<exists>i\<le>length p. blocking (fs (take i p))" by simp
    with n mkdir_from_error [OF m] show ?thesis by simp
  qed
  have p4: "\<exists>e. ensureBaselineDirectory fs p = Inl e"
    if a: "\<exists>i<length p. is_file (fs (take i p))"
  proof -
    from a obtain i where i: "i < length p" "is_file (fs (take i p))" by blast
    have "\<not> is_file (fs [])"
      using assms by (cases "fs []" rule: is_dir.cases) auto
    with i(2) have "0 < i"
      by (cases i) auto
    from mkdir_from_file [of fs "[]" i p] assms this i
    have "\<exists>e. mkdir_from fs [] p = Inl e" by simp
    with ancestor_file_not_exists [of i p fs, OF i] show ?thesis
      by (simp add: ensureBaselineDirectory_def mkdirSync_recursive_def)
  qed
  have p56: "ensureBaselineDirectory fs p
               = (if w then Inr (fs(p \<mapsto> Dir True)) else Inl (IOError EACCES))"
    if a: "\<not> existsSync fs p \<and> resolve fs (butlast p) = Some (Dir w)" for w
  proof -
    from a have par: "resolve fs (butlast p) = Some (Dir w)" by simp
    from a resolve_parent [OF par] have none: "fs p = None"
      by (simp add: existsSync_def)
    have ne: "p \<noteq> []"
      using none assms by auto
    then have split: "p = butlast p @ [last p]" by simp
    have dirs: "\<forall>i. 0 < i \<and> i \<le> length (butlast p) \<longrightarrow> is_dir (fs ([] @ take i (butlast p)))"
    proof (intro allI impI)
      fix i assume "0 < i \<and> i \<le> length (butlast p)"
      then have "i < length p"
        using ne by (cases p rule: rev_cases) auto
      then have "take i (butlast p) = take i p"
        by (rule take_butlast)
      with prefixes_are_dirs [OF par \<open>i < length p\<close>]
      show "is_dir (fs ([] @ take i (butlast p)))"
        by simp
    qed
    have "fs ([] @ butlast p) = Some (Dir w)"
      using par by (simp add: resolve_Some)
    moreover have "fs ([] @ butlast p @ [last p]) = None"
      using none split by simp
    ultimately have "mkdir_from fs [] (butlast p @ [last p])
        = (if w then Inr (fs([] @ butlast p @ [last p] \<mapsto> Dir True))
           else Inl (IOError EACCES))"
      using mkdir_from_last [OF _ dirs, of w "last p"] assms by simp
    with split a show ?thesis
      by (simp add: ensureBaselineDirectory_def mkdirSync_recursive_def)
  qed
  have p5: "\<not> existsSync fs p \<and> resolve fs (butlast p) = Some (Dir False)
        \<longrightarrow> ensureBaselineDirectory fs p = Inl (IOError EACCES)"
    using p56 [of False] by simp
  have p6: "\<not> existsSync fs p \<and> resolve fs (butlast p) = Some (Dir True)
        \<longrightarrow> ensureBaselineDirectory fs p = Inr (fs(p \<mapsto> Dir True))"
    using p56 [of True] by simp
  show ?thesis using p1 p2 p3 p4 p5 p6 by blast
qed

text \<open>
  Claim C8 as stated fails: on a path taken by a regular file, and on a directory without
  write permission, \<open>ensureBaselineDirectory\<close> returns normally and changes nothing.
\<close>

theorem ensure_directory_counterexample:
  "resolve file_fs [''baselines''] = Some (File True (OtherText ''notes''))
   \<and> ensureBaselineDirectory file_fs [''baselines''] = Inr file_fs
   \<and> resolve readonly_fs [''baselines''] = Some (Dir False)
   \<and> ensureBaselineDirectory readonly_fs [''baselines''] = Inr readonly_fs"
  by (simp add: ensureBaselineDirectory_def existsSync_def resolve_def file_fs_def
      readonly_fs_def)

theorem ensure_directory_idempotent_witness:
  "is_dir (empty_fs [])
   \<and> ensureBaselineDirectory empty_fs [''baselines''] = Inr empty_fs
   \<and> ensureBaselineDirectory empty_fs [''baselines'', ''seo'']
       = Inr (empty_fs([''baselines'', ''seo''] \<mapsto> Dir True))
   \<and> is_dir (readonly_fs [])
   \<and> ensureBaselineDirectory readonly_fs [''baselines'', ''seo''] = Inl (IOError EACCES)"
proof -
  have r: "is_dir (empty_fs [])" by (simp add: empty_fs_def)
  have e: "existsSync empty_fs [''baselines'']"
    by (simp add: existsSync_def resolve_def empty_fs_def)
  have n: "\<not> existsSync empty_fs [''baselines'', ''seo'']"
    "resolve empty_fs (butlast [''baselines'', ''seo'']) = Some (Dir True)"
    by (simp_all add: existsSync_def resolve_def empty_fs_def)
  have r': "is_dir (readonly_fs [])" by (simp add: readonly_fs_def)
  have n': "\<not> existsSync readonly_fs [''baselines'', ''seo'']"
    "resolve readonly_fs (butlast [''baselines'', ''seo'']) = Some (Dir False)"
    by (simp_all add: existsSync_def resolve_def readonly_fs_def)
  from ensure_directory_idempotent [of empty_fs "[''baselines'']", OF r] e
  have "ensureBaselineDirectory empty_fs [''baselines''] = Inr empty_fs" by blast
  moreover from ensure_directory_idempotent [of empty_fs "[''baselines'', ''seo'']", OF r] n
  have "ensureBaselineDirectory empty_fs [''baselines'', ''seo'']
       = Inr (empty_fs([''baselines'', ''seo''] \<mapsto> Dir True))" by blast
  moreover from ensure_directory_idempotent [of readonly_fs "[''baselines'', ''seo'']", OF r'] n'
  have "ensureBaselineDirectory readonly_fs [''baselines'', ''seo''] = Inl (IOError EACCES)"
    by blast
  ultimately show ?thesis using r r' by blast
qed

section \<open>The meta-tags comparison sees contents only\<close>


lemma map_of_put_property:
  "map_of (put_property ds k v) k' = (if k' = k then Some v else map_of ds k')"
  by (induction ds) auto

lemma map_of_set_property:
  "map_of (set_property ds k v) k'
     = (if k' = k \<and> k \<noteq> ''__proto__'' then Some v else map_of ds k')"
  by (simp add: set_property_def map_of_put_property)

lemma get_member_tag_of: "get_member (JObj m) k = Inr (tag_of m k)"
  by (simp add: tag_of_def)

lemma same_content_tag_of:
  assumes "same_content m m'"
  shows "tag_view (tag_of m k) = tag_view (tag_of m' k)"
proof -
  from assms have "length m = length m'"
    by (auto simp: same_content_def dest: map_eq_imp_length_eq)
  then show ?thesis using assms
  proof (induction m m' rule: list_induct2)
    case Nil
    show ?case by simp
  next
    case (Cons x xs y ys)
    then have "same_content xs ys" "fst x = fst y" "tag_view (snd x) = tag_view (snd y)"
      by (auto simp: same_content_def)
    with Cons.IH show ?case
      by (cases x; cases y) (auto simp: tag_of_def)
  qed
qed

lemma same_content_baseline_tags:
  assumes "same_content c c'" "same_content b b'"
  shows "baseline_tags (JObj c') (JObj b') keys acc = baseline_tags (JObj c) (JObj b) keys acc"
proof (induction keys arbitrary: acc)
  case Nil
  show ?case by simp
next
  case (Cons key keys)
  obtain ds ms where acc: "acc = (ds, ms)" by (cases acc)
  from same_content_tag_of [OF assms(1), of key]
  have c: "truthy (tag_of c' key) = truthy (tag_of c key)"
    "get_member (tag_of c' key) ''content'' = get_member (tag_of c key) ''content''"
    by (simp_all add: tag_view_def)
  from same_content_tag_of [OF assms(2), of key]
  have b: "get_member (tag_of b' key) ''content'' = get_member (tag_of b key) ''content''"
    by (simp add: tag_view_def)
  show ?case
    unfolding acc baseline_tags.simps get_member_tag_of
    by (auto simp: c b Cons.IH split: sum.splits)
qed

lemma same_content_new_tag:
  assumes "same_content b b'"
  shows "new_tag (JObj b') key = new_tag (JObj b) key"
  using same_content_tag_of [OF assms, of key]
  by (simp add: new_tag_def tag_view_def tag_of_def)

lemma tag_of_object:
  assumes "tags_are_objects m" "k \<in> fst ` set m"
  shows "is_object (tag_of m k)"
proof -
  from assms(2) obtain v where "map_of m k = Some v"
    by (metis domD dom_map_of_conv_image_fst)
  moreover from this have "(k, v) \<in> set m" by (rule map_of_SomeD)
  ultimately show ?thesis
    using assms(1) by (auto simp: tag_of_def tags_are_objects_def list_all_iff)
qed

lemma content_of_object: "is_object t \<Longrightarrow> \<exists>x. get_member t ''content'' = Inr x"
  by (cases t) auto

lemma baseline_tags_total:
  assumes "tags_are_objects b" "set keys \<subseteq> fst ` set b"
  shows "\<exists>ds ms. baseline_tags (JObj c) (JObj b) keys acc = Inr (ds, ms)"
  using assms(2)
proof (induction keys arbitrary: acc)
  case Nil
  show ?case by (cases acc) simp
next
  case (Cons key keys)
  obtain ds ms where acc: "acc = (ds, ms)" by (cases acc)
  from Cons.prems have "is_object (tag_of b key)"
    using tag_of_object [OF assms(1)] by simp
  then obtain bc where bc: "get_member (tag_of b key) ''content'' = Inr bc"
    using content_of_object by blast
  have ih: "\<exists>ds ms. baseline_tags (JObj c) (JObj b) keys acc' = Inr (ds, ms)" for acc'
    using Cons by simp
  show ?case
  proof (cases "truthy (tag_of c key)")
    case False
    then show ?thesis
      unfolding acc baseline_tags.simps get_member_tag_of using ih by simp
  next
    case True
    then obtain cc where "get_member (tag_of c key) ''content'' = Inr cc"
      by (cases "tag_of c key") auto
    with True bc show ?thesis
      unfolding acc baseline_tags.simps get_member_tag_of using ih by simp
  qed
qed

lemma baseline_tags_Cons:
  "baseline_tags (JObj c) (JObj b) (key # keys) (ds, ms) =
     (if \<not> truthy (tag_of c key) then baseline_tags (JObj c) (JObj b) keys (ds, ms @ [key])
      else (case get_member (tag_of b key) ''content'' of Inl e \<Rightarrow> Inl e
            | Inr bc \<Rightarrow>
              (case get_member (tag_of c key) ''content'' of Inl e \<Rightarrow> Inl e
               | Inr cc \<Rightarrow>
                 if \<not> strict_eq bc cc
                 then baseline_tags (JObj c) (JObj b) keys (set_property ds key (bc, cc), ms)
                 else baseline_tags (JObj c) (JObj b) keys (ds, ms))))"
  by (simp only: baseline_tags.simps get_member_tag_of sum.case)

lemma baseline_tags_differences:
  assumes "baseline_tags (JObj c) (JObj b) keys (ds, ms) = Inr (ds', ms')"
    "get_member (tag_of b k) ''content'' = Inr bc" "get_member (tag_of c k) ''content'' = Inr cc"
    "truthy (tag_of c k)"
  shows "map_of ds' k = (if k \<in> set keys \<and> \<not> strict_eq bc cc \<and> k \<noteq> ''__proto__''
                         then Some (bc, cc) else map_of ds k)"
  using assms(1)
proof (induction keys arbitrary: ds ms)
  case Nil
  then show ?case by simp
next
  case (Cons key keys)
  note step = Cons.prems [unfolded baseline_tags_Cons]
  show ?case
  proof (cases "key = k")
    case True
    show ?thesis
    proof (cases "strict_eq bc cc")
      case eq: True
      with step True assms(2-4)
      have "baseline_tags (JObj c) (JObj b) keys (ds, ms) = Inr (ds', ms')"
        by simp
      from Cons.IH [OF this] eq show ?thesis by simp
    next
      case ne: False
      with step True assms(2-4)
      have "baseline_tags (JObj c) (JObj b) keys (set_property ds k (bc, cc), ms) = Inr (ds', ms')"
        by simp
      from Cons.IH [OF this] ne True show ?thesis
        by (simp add: map_of_set_property)
    qed
  next
    case False
    from step obtain ds1 ms1 where
      rec: "baseline_tags (JObj c) (JObj b) keys (ds1, ms1) = Inr (ds', ms')"
      and ds1: "map_of ds1 k = map_of ds k"
      using False
      by (auto simp: map_of_set_property split: if_splits sum.splits)
    from Cons.IH [OF rec] ds1 False show ?thesis by simp
  qed
qed

lemma new_tag_total: "\<exists>ks. for_each (new_tag (JObj b)) keys = Inr ks"
  by (rule for_each_total) (simp add: new_tag_def)




section \<open>What a reader meets while a baseline is written\<close>


lemma write_states_success:
  assumes "writeFileSync fs p (Some doc) = Inr fs'"
  shows "\<exists>opened. writeFileSync_states fs p (Some doc) = [fs, opened, fs']
           \<and> readFileSync opened p = Inr (OtherText [])
           \<and> readFileSync fs' p = Inr (JsonText doc)"
proof -
  from assms obtain opened where o: "openSync_w fs p = Inr opened"
    and fs': "fs' = writeSync_all opened p doc"
    by (auto simp: writeFileSync_def split: sum.splits)
  from o obtain w where w: "resolve fs (butlast p) = Some (Dir w)"
    by (auto simp: openSync_w_def split: option.splits node.splits)
  from o w obtain fw where "opened = fs(p \<mapsto> File fw (OtherText []))"
    by (auto simp: openSync_w_def split: option.splits node.splits if_splits)
  then have "readFileSync opened p = Inr (OtherText [])"
    using resolve_update [OF w] by (simp add: readFileSync_def)
  moreover have "writeFileSync_states fs p (Some doc) = [fs, opened, fs']"
    using o fs' by (simp add: writeFileSync_states_def)
  ultimately show ?thesis
    using write_then_read [OF assms] by blast
qed

lemma write_states_failure:
  assumes "writeFileSync fs p d = Inl e"
  shows "writeFileSync_states fs p d = [fs]"
  using assms
  by (auto simp: writeFileSync_def writeFileSync_states_def split: option.splits sum.splits)

text \<open>
  Claim C9, as amended. Every write of a baseline file, by the first run and by
  \<open>updateBaseline\<close>, is one \<^verbatim>\<open>writeFileSync\<close> on the baseline file itself. A call that
  raises leaves the file system as it was. A call that returns takes it through three states:
  the old one, one in which the baseline file has been truncated and reads as the empty text,
  and the new one, which is the state returned and in which the file reads as the complete
  new document. So the write is all-or-nothing for a reader before or after the call, and a
  reader during the call can meet the truncated file.
\<close>

theorem baseline_write_states:
  "(\<forall>fs'. updateBaseline fs now v pageName baselinePath baselineType = Inr fs'
      \<longrightarrow> (\<exists>opened doc.
            updateBaseline_states fs now v pageName baselinePath baselineType = [fs, opened, fs']
          \<and> readFileSync opened (baselineFile baselinePath pageName) = Inr (OtherText [])
          \<and> readFileSync fs' (baselineFile baselinePath pageName) = Inr (JsonText doc)))
   \<and> (\<forall>e. updateBaseline fs now v pageName baselinePath baselineType = Inl e
      \<longrightarrow> updateBaseline_states fs now v pageName baselinePath baselineType = [fs])
   \<and> (\<forall>fs' r. \<not> existsSync fs (baselineFile baselinePath pageName)
        \<and> compareWithBaseline fs v pageName baselinePath baselineType = Inr (fs', r)
      \<longrightarrow> (\<exists>opened doc.
            first_run_states fs v pageName baselinePath baselineType = [fs, opened, fs']
          \<and> readFileSync opened (baselineFile baselinePath pageName) = Inr (OtherText [])
          \<and> readFileSync fs' (baselineFile baselinePath pageName) = Inr (JsonText doc)))
   \<and> (\<forall>e. \<not> existsSync fs (baselineFile baselinePath pageName)
        \<and> compareWithBaseline fs v pageName baselinePath baselineType = Inl e
      \<longrightarrow> first_run_states fs v pageName baselinePath baselineType = [fs])"
proof -
  let ?file = "baselineFile baselinePath pageName"
  have stringify: "d \<noteq> JUndefined \<Longrightarrow> JSON_stringify d = Some (json_value d)" for d
    by (simp add: JSON_stringify_def)
  have u1: "\<exists>opened doc.
            updateBaseline_states fs now v pageName baselinePath baselineType = [fs, opened, fs']
          \<and> readFileSync opened ?file = Inr (OtherText [])
          \<and> readFileSync fs' ?file = Inr (JsonText doc)"
    if u: "updateBaseline fs now v pageName baselinePath baselineType = Inr fs'" for fs'
  proof -
    from u obtain d where d: "updated_baseline now v baselineType = Inr d"
      and w: "writeFileSync fs ?file (JSON_stringify d) = Inr fs'"
      by (auto simp: updateBaseline_def split: sum.splits)
    from w obtain doc where doc: "JSON_stringify d = Some doc"
      by (cases "JSON_stringify d") (auto simp: writeFileSync_def)
    from write_states_success [of fs ?file doc fs'] w doc d show ?thesis
      by (auto simp: updateBaseline_states_def)
  qed
  have u2: "updateBaseline_states fs now v pageName baselinePath baselineType = [fs]"
    if "updateBaseline fs now v pageName baselinePath baselineType = Inl e" for e
    using that write_states_failure
    by (auto simp: updateBaseline_def updateBaseline_states_def split: sum.splits)
  have f1: "\<exists>opened doc.
            first_run_states fs v pageName baselinePath baselineType = [fs, opened, fs']
          \<and> readFileSync opened ?file = Inr (OtherText [])
          \<and> readFileSync fs' ?file = Inr (JsonText doc)"
    if c: "\<not> existsSync fs ?file
           \<and> compareWithBaseline fs v pageName baselinePath baselineType = Inr (fs', r)"
    for fs' r
  proof -
    from c obtain d where d: "first_baseline v baselineType = Inr d"
      and w: "writeFileSync fs ?file (JSON_stringify d) = Inr fs'"
      by (auto simp: compareWithBaseline_def split: sum.splits)
    from w obtain doc where doc: "JSON_stringify d = Some doc"
      by (cases "JSON_stringify d") (auto simp: writeFileSync_def)
    from write_states_success [of fs ?file doc fs'] w doc d show ?thesis
      by (auto simp: first_run_states_def)
  qed
  have f2: "first_run_states fs v pageName baselinePath baselineType = [fs]"
    if "\<not> existsSync fs ?file
        \<and> compareWithBaseline fs v pageName baselinePath baselineType = Inl e" for e
    using that write_states_failure
    by (auto simp: compareWithBaseline_def first_run_states_def split: sum.splits)
  show ?thesis using u1 u2 f1 f2 by blast
qed

text \<open>
  Claim C9 as stated fails: between the old baseline and the new one, and between no baseline
  and the first one, a reader meets the baseline file with an empty text, which is neither
  the old contents nor the new and does not parse.
\<close>

theorem baseline_write_counterexample:
  "observations
     (updateBaseline_states example_fs ''2024-01-01T00:00:00.000Z'' (example_tags ''B'') ''home''
        [''baselines''] ''meta-tags'')
     (baselineFile [''baselines''] ''home'')
   = [Inr (JsonText (JObj [(''metaTags'', example_tags ''A''), (''metaTagCount'', JNum 1)])),
      Inr (OtherText []),
      Inr (JsonText (JObj [(''metaTags'', example_tags ''B''), (''metaTagCount'', JNum 1),
                           (''lastUpdated'', JStr ''2024-01-01T00:00:00.000Z'')]))]
   \<and> observations
       (first_run_states empty_fs (example_tags ''A'') ''home'' [''baselines''] ''meta-tags'')
       (baselineFile [''baselines''] ''home'')
     = [Inl (IOError ENOENT),
        Inr (OtherText []),
        Inr (JsonText (JObj [(''metaTags'', example_tags ''A''), (''metaTagCount'', JNum 1)]))]
   \<and> JSON_parse (OtherText []) = Inl SyntaxError"
  by (simp add: observations_def updateBaseline_states_def first_run_states_def
      updated_baseline_def first_baseline_def example_tags_def example_file
      writeFileSync_states_def openSync_w_def writeSync_all_def JSON_stringify_def
      readFileSync_def resolve_def example_fs_def empty_fs_def)

theorem baseline_write_states_witness:
  "updateBaseline example_fs ''2024-01-01T00:00:00.000Z'' (example_tags ''B'') ''home''
     [''baselines''] ''meta-tags''
   = Inr (example_fs([''baselines'', ''home-baseline.json''] \<mapsto>
            File True (JsonText (JObj [(''metaTags'', example_tags ''B''),
              (''metaTagCount'', JNum 1),
              (''lastUpdated'', JStr ''2024-01-01T00:00:00.000Z'')]))))
   \<and> (\<exists>opened doc.
        updateBaseline_states example_fs ''2024-01-01T00:00:00.000Z'' (example_tags ''B'') ''home''
          [''baselines''] ''meta-tags''
        = [example_fs, opened,
           example_fs([''baselines'', ''home-baseline.json''] \<mapsto>
            File True (JsonText (JObj [(''metaTags'', example_tags ''B''),
              (''metaTagCount'', JNum 1),
              (''lastUpdated'', JStr ''2024-01-01T00:00:00.000Z'')])))]
      \<and> readFileSync opened (baselineFile [''baselines''] ''home'') = Inr (OtherText [])
      \<and> readFileSync
           (example_fs([''baselines'', ''home-baseline.json''] \<mapsto>
            File True (JsonText (JObj [(''metaTags'', example_tags ''B''),
              (''metaTagCount'', JNum 1),
              (''lastUpdated'', JStr ''2024-01-01T00:00:00.000Z'')]))))
           (baselineFile [''baselines''] ''home'')
         = Inr (JsonText doc))"
proof -
  have u: "updateBaseline example_fs ''2024-01-01T00:00:00.000Z'' (example_tags ''B'') ''home''
     [''baselines''] ''meta-tags''
   = Inr (example_fs([''baselines'', ''home-baseline.json''] \<mapsto>
            File True (JsonText (JObj [(''metaTags'', example_tags ''B''),
              (''metaTagCount'', JNum 1),
              (''lastUpdated'', JStr ''2024-01-01T00:00:00.000Z'')]))))"
    by (simp add: updateBaseline_def updated_baseline_def example_tags_def example_file
        writeFileSync_unfold JSON_stringify_def resolve_def example_fs_def)
  from baseline_write_states [of example_fs "''2024-01-01T00:00:00.000Z''" "example_tags ''B''"
      "''home''" "[''baselines'']" "''meta-tags''"] u
  show ?thesis by blast
qed

end
